theory Spec2Isabelle
  imports Main "HOL-Library.Sublist" "HOL-Library.Word"
begin

section \<open>JavaScript strings\<close>

text \<open>
  A JavaScript string is a sequence of UTF-16 code units; \<open>length\<close>, \<open>slice\<close>,
  \<open>split('')\<close>, \<open>includes\<close> and a regular expression without the \<open>u\<close> flag all
  work on code units. The CJK punctuation and keywords of the source are single code
  units of the Basic Multilingual Plane, written here by their number.
\<close>

type_synonym jschar = "16 word"
type_synonym jsstring = "jschar list"

definition ascii :: "string \<Rightarrow> jsstring" where
  "ascii s = map (\<lambda>c. of_nat (of_char c)) s"

text \<open>
  \<open>String.prototype.trim\<close> removes WhiteSpace and LineTerminator code units
  (ECMAScript 12.2 and 12.3) from both ends; \<open>trimStart\<close> from the front only.
\<close>

definition isWhiteSpace :: "jschar \<Rightarrow> bool" where
  "isWhiteSpace c =
     (c = 0x0009 \<or> c = 0x000A \<or> c = 0x000B \<or> c = 0x000C \<or> c = 0x000D \<or> c = 0x0020 \<or>
      c = 0x00A0 \<or> c = 0x1680 \<or> (0x2000 \<le> c \<and> c \<le> 0x200A) \<or> c = 0x2028 \<or>
      c = 0x2029 \<or> c = 0x202F \<or> c = 0x205F \<or> c = 0x3000 \<or> c = 0xFEFF)"

definition trimStart :: "jsstring \<Rightarrow> jsstring" where
  "trimStart s = dropWhile isWhiteSpace s"

definition trimEnd :: "jsstring \<Rightarrow> jsstring" where
  "trimEnd s = rev (dropWhile isWhiteSpace (rev s))"

definition trim :: "jsstring \<Rightarrow> jsstring" where
  "trim s = trimEnd (trimStart s)"

text \<open>\<open>s.includes(sub)\<close>: \<open>sub\<close> occurs in \<open>s\<close> as a contiguous run.\<close>

fun includesJs :: "jsstring \<Rightarrow> jsstring \<Rightarrow> bool" where
  "includesJs [] sub = (sub = [])"
| "includesJs (c # cs) sub = (prefix sub (c # cs) \<or> includesJs cs sub)"

text \<open>The non-whitespace code units of a string, in order.\<close>

definition nonWhitespace :: "jsstring \<Rightarrow> jsstring" where
  "nonWhitespace s = filter (\<lambda>c. \<not> isWhiteSpace c) s"

text \<open>
  \<open>String.prototype.toLowerCase\<close> follows the Unicode case tables of the platform,
  which are no part of the repository: the functions that call it take it as the
  parameter \<open>lc\<close>. \<open>asciiLower\<close> is the instance used to run examples; it agrees
  with the platform on every string of ASCII and CJK code units.
\<close>

definition asciiLower :: "jsstring \<Rightarrow> jsstring" where
  "asciiLower s = map (\<lambda>c. if 0x41 \<le> c \<and> c \<le> 0x5A then c + 0x20 else c) s"

section \<open>SegmentationModule\<close>

record SentenceSegment =
  segText :: jsstring
  emotion :: "jsstring option"
  emphasis :: "bool option"
  pause :: "nat option"

record SegmentationConfig =
  minSegmentLength :: nat
  maxSegmentLength :: nat
  punctuationMarks :: "jsstring list"
  emotionKeywords :: "(jsstring \<times> jsstring) list"

text \<open>The configuration of the constructor, which the factory passes again unchanged.\<close>

definition defaultSegmentationConfig :: SegmentationConfig where
  "defaultSegmentationConfig =
     \<lparr> minSegmentLength = 10,
       maxSegmentLength = 100,
       punctuationMarks =
         [[0x3002], [0xFF01], [0xFF1F], [0xFF1B], [0xFF0C],
          [0x2E], [0x21], [0x3F], [0x3B], [0x2C]],
       emotionKeywords =
         [([0x5F00, 0x5FC3], ascii ''happy''),
          ([0x9AD8, 0x5174], ascii ''happy''),
          ([0x5FEB, 0x4E50], ascii ''happy''),
          ([0x6124, 0x6012], ascii ''angry''),
          ([0x751F, 0x6C14], ascii ''angry''),
          ([0x60B2, 0x4F24], ascii ''sad''),
          ([0x96BE, 0x8FC7], ascii ''sad''),
          ([0x54ED, 0x6CE3], ascii ''cry''),
          ([0x60CA, 0x8BB6], ascii ''surprised''),
          ([0x5BB3, 0x6015], ascii ''fear''),
          ([0x6050, 0x60E7], ascii ''fear''),
          ([0x538C, 0x6076], ascii ''disgust''),
          ([0x6076, 0x5FC3], ascii ''disgust'')] \<rparr>"

text \<open>
  The character class \<open>[\<dots>]\<close> of \<open>sentenceRegex\<close>: ideographic full stop, fullwidth
  exclamation mark, question mark and semicolon, and the line feed.
\<close>

definition isHardBoundary :: "jschar \<Rightarrow> bool" where
  "isHardBoundary c = (c = 0x3002 \<or> c = 0xFF01 \<or> c = 0xFF1F \<or> c = 0xFF1B \<or> c = 0x000A)"

text \<open>
  \<open>text.match(/[^\<dots>]+[\<dots>]*/g) || []\<close>: all matches from left to right. A match
  cannot start at a boundary character (\<open>[^\<dots>]+\<close> needs one other character), so the
  scan moves on by one there; elsewhere it takes the longest run of other characters,
  then the longest run of boundary characters, and goes on behind them.
\<close>

function matchSentences :: "jsstring \<Rightarrow> jsstring list" where
  "matchSentences [] = []"
| "matchSentences (c # cs) =
     (if isHardBoundary c then matchSentences cs
      else
        let body = takeWhile (\<lambda>x. \<not> isHardBoundary x) (c # cs);
            rest = dropWhile (\<lambda>x. \<not> isHardBoundary x) (c # cs);
            stops = takeWhile isHardBoundary rest
        in (body @ stops) # matchSentences (dropWhile isHardBoundary rest))"
  by pat_completeness auto
termination
proof (relation "measure length")
  fix c :: jschar and cs body rest stops
  assume "\<not> isHardBoundary c"
    and "rest = dropWhile (\<lambda>x. \<not> isHardBoundary x) (c # cs)"
  then have "length rest \<le> length cs"
    by (simp add: length_dropWhile_le)
  moreover have "length (dropWhile isHardBoundary rest) \<le> length rest"
    by (rule length_dropWhile_le)
  ultimately show "(dropWhile isHardBoundary rest, c # cs) \<in> measure length"
    by simp
qed simp_all

definition splitIntoSentences :: "jsstring \<Rightarrow> jsstring list" where
  "splitIntoSentences t = filter (\<lambda>s. length s > 0) (map trim (matchSentences t))"

definition analyzeEmotion ::
  "(jsstring \<Rightarrow> jsstring) \<Rightarrow> SegmentationConfig \<Rightarrow> jsstring \<Rightarrow> jsstring" where
  "analyzeEmotion lc cfg t =
     (let lowerText = lc t in
      case find (\<lambda>(keyword, emo). includesJs lowerText keyword) (emotionKeywords cfg) of
        Some (keyword, emo) \<Rightarrow> emo
      | None \<Rightarrow>
          if includesJs t [0xFF01] \<or> includesJs t [0x21] then ascii ''surprised''
          else if includesJs t [0xFF1F] \<or> includesJs t [0x3F] then ascii ''surprised''
          else ascii ''neutral'')"

definition hasEmphasis :: "jsstring \<Rightarrow> bool" where
  "hasEmphasis t =
     (includesJs t [0x2A, 0x2A] \<or> includesJs t [0x5F, 0x5F] \<or> includesJs t [0xFF01] \<or>
      includesJs t [0x21])"

text \<open>
  \<open>calculatePause\<close> counts the matches of each configured mark and adds
  \<open>count * weight\<close> along the \<open>if\<close>/\<open>else if\<close> chain; a mark that is none of the ten
  one-character strings of the chain adds nothing, whatever its count, so the count is
  spelled out for one-character marks only.
\<close>

definition markCount :: "jsstring \<Rightarrow> jsstring \<Rightarrow> nat" where
  "markCount mark t = (case mark of [c] \<Rightarrow> count_list t c | _ \<Rightarrow> 0)"

definition calculatePause :: "SegmentationConfig \<Rightarrow> jsstring \<Rightarrow> nat" where
  "calculatePause cfg t =
     foldl (\<lambda>p mark.
        let n = markCount mark t in
        if mark = [0x3002] \<or> mark = [0x2E] then p + n * 500
        else if mark = [0xFF01] \<or> mark = [0x21] then p + n * 300
        else if mark = [0xFF1F] \<or> mark = [0x3F] then p + n * 400
        else if mark = [0xFF1B] \<or> mark = [0x3B] then p + n * 200
        else if mark = [0xFF0C] \<or> mark = [0x2C] then p + n * 100
        else p) 0 (punctuationMarks cfg)"

text \<open>The object literal pushed in \<open>segment\<close> and in \<open>splitLongSentence\<close>.\<close>

definition mkSegment :: "SegmentationConfig \<Rightarrow> jsstring \<Rightarrow> jsstring \<Rightarrow> SentenceSegment" where
  "mkSegment cfg emo t =
     \<lparr> segText = t, emotion = Some emo, emphasis = Some (hasEmphasis t),
       pause = Some (calculatePause cfg t) \<rparr>"

text \<open>
  The loop of \<open>splitLongSentence\<close> over the code units of the sentence, with
  \<open>currentSegment\<close> as accumulator; the empty list of code units is the code behind
  the loop, which pushes the remainder unless it is blank.
\<close>

fun splitWords ::
  "SegmentationConfig \<Rightarrow> jsstring \<Rightarrow> jsstring \<Rightarrow> jsstring \<Rightarrow> SentenceSegment list" where
  "splitWords cfg emo currentSegment [] =
     (if trim currentSegment \<noteq> [] then [mkSegment cfg emo currentSegment] else [])"
| "splitWords cfg emo currentSegment (word # ws) =
     (let cur = currentSegment @ [word] in
      if List.member (punctuationMarks cfg) [word] \<and> length cur \<ge> minSegmentLength cfg
      then mkSegment cfg emo cur # splitWords cfg emo [] ws
      else splitWords cfg emo cur ws)"

definition splitLongSentence ::
  "SegmentationConfig \<Rightarrow> jsstring \<Rightarrow> jsstring \<Rightarrow> SentenceSegment list" where
  "splitLongSentence cfg sentence emo = splitWords cfg emo [] sentence"

definition segment ::
  "(jsstring \<Rightarrow> jsstring) \<Rightarrow> SegmentationConfig \<Rightarrow> jsstring \<Rightarrow> SentenceSegment list" where
  "segment lc cfg t =
     concat (map (\<lambda>sentence.
        let emo = analyzeEmotion lc cfg sentence in
        if length sentence > maxSegmentLength cfg then splitLongSentence cfg sentence emo
        else [mkSegment cfg emo sentence]) (splitIntoSentences t))"

section \<open>The render stream protocol\<close>

text \<open>
  \<open>RenderStream\<close>, \<open>RenderStreamHistory\<close> and \<open>RenderStreamState\<close> as the type
  declarations of the repository have them: every field of a render stream is optional,
  the camera is one of five string literals.
\<close>

datatype CameraMode =
    CameraNone          \<comment> \<open>the literal for "none"\<close>
  | CameraSmart         \<comment> \<open>the smart camera\<close>
  | CameraCloseUp       \<comment> \<open>tracking, close-up\<close>
  | CameraBack          \<comment> \<open>tracking, from behind\<close>
  | CameraFront         \<comment> \<open>tracking, facing\<close>

text \<open>
  A property read \<open>record[key]\<close> on an object literal finds the object's own
  property, or else the member of that name that every object inherits from
  \<open>Object.prototype\<close>, or else \<open>undefined\<close>. An inherited member is a function (for
  \<open>__proto__\<close> the prototype itself): a truthy value that is no string and no array.
\<close>

definition objectPrototypeKeys :: "jsstring list" where
  "objectPrototypeKeys =
     map ascii
       [''constructor'', ''hasOwnProperty'', ''isPrototypeOf'', ''propertyIsEnumerable'',
        ''toLocaleString'', ''toString'', ''valueOf'', ''__proto__'', ''__defineGetter__'',
        ''__defineSetter__'', ''__lookupGetter__'', ''__lookupSetter__'']"

datatype 'a Property = Own 'a | Inherited jsstring | Undefined

definition getProperty :: "(jsstring \<times> 'a) list \<Rightarrow> jsstring \<Rightarrow> 'a Property" where
  "getProperty obj key =
     (case map_of obj key of
        Some v \<Rightarrow> Own v
      | None \<Rightarrow> if List.member objectPrototypeKeys key then Inherited key else Undefined)"

text \<open>
  The value in the \<open>expression\<close> field: a string, or the inherited member that a
  lookup in \<open>emotionToExpression\<close> has found (the cast to the union type checks
  nothing).
\<close>

datatype ExpressionValue = ExpressionName jsstring | ExpressionMember jsstring

record RenderStream =
  streamText :: "jsstring option"
  audio :: "jsstring option"
  expression :: "ExpressionValue option"
  motion :: "jsstring option list option"
  camera :: "CameraMode option"
  scene :: "jsstring option"
  background :: "jsstring option"
  timestamp :: "nat option"
  streamId :: "jsstring option"

record RenderStreamHistory =
  streams :: "RenderStream list"
  currentIndex :: int
  maxHistory :: nat

datatype RenderStreamState = ERROR | IDLE | PROCESSING | RENDERING | TRANSITIONING

text \<open>
  What one call of \<open>generate\<close> draws from outside: the two readings of \<open>Date.now()\<close>,
  the number drawn for the motion pick, and the base-36 digits drawn for the stream id.
\<close>

record Entropy =
  timestampNow :: nat
  motionDraw :: nat
  idNow :: nat
  idDraw :: jsstring

text \<open>Truthiness of an optional string and of an optional boolean.\<close>

definition truthyString :: "jsstring option \<Rightarrow> bool" where
  "truthyString v = (case v of None \<Rightarrow> False | Some s \<Rightarrow> s \<noteq> [])"

definition truthyBool :: "bool option \<Rightarrow> bool" where
  "truthyBool v = (case v of None \<Rightarrow> False | Some b \<Rightarrow> b)"

text \<open>\<open>xs.slice(-n)\<close>: the last \<open>n\<close> elements, all of them when there are fewer.\<close>

definition sliceLast :: "nat \<Rightarrow> 'a list \<Rightarrow> 'a list" where
  "sliceLast n xs = drop (length xs - n) xs"

text \<open>The decimal digits of a number, as a template literal prints it.\<close>

fun decimal :: "nat \<Rightarrow> jsstring" where
  "decimal n = (if n < 10 then [0x30 + of_nat n]
                else decimal (n div 10) @ [0x30 + of_nat (n mod 10)])"

declare decimal.simps [simp del]

definition generateStreamId :: "Entropy \<Rightarrow> jsstring" where
  "generateStreamId en = ascii ''stream_'' @ decimal (idNow en) @ ascii ''_'' @ idDraw en"

section \<open>GenerationModule\<close>

record GenerationConfig =
  defaultExpression :: jsstring
  defaultMotion :: "jsstring list"
  defaultCamera :: CameraMode
  emotionToExpression :: "(jsstring \<times> jsstring) list"
  emotionToMotion :: "(jsstring \<times> jsstring list) list"

definition defaultGenerationConfig :: GenerationConfig where
  "defaultGenerationConfig =
     \<lparr> defaultExpression = ascii ''neutral'',
       defaultMotion = [ascii ''idle''],
       defaultCamera = CameraSmart,
       emotionToExpression =
         [(ascii ''happy'', ascii ''smile''),
          (ascii ''angry'', ascii ''angry''),
          (ascii ''sad'', ascii ''sad''),
          (ascii ''cry'', ascii ''cry''),
          (ascii ''surprised'', ascii ''surprised''),
          (ascii ''fear'', ascii ''fear''),
          (ascii ''disgust'', ascii ''disgust''),
          (ascii ''neutral'', ascii ''neutral'')],
       emotionToMotion =
         [(ascii ''happy'', [ascii ''wave'', ascii ''dance'']),
          (ascii ''angry'', [ascii ''fist'', ascii ''point'']),
          (ascii ''sad'', [ascii ''head_down'', ascii ''sigh'']),
          (ascii ''cry'', [ascii ''cry'', ascii ''wipe_tears'']),
          (ascii ''surprised'', [ascii ''jump'', ascii ''hands_up'']),
          (ascii ''fear'', [ascii ''shrink'', ascii ''cover_face'']),
          (ascii ''disgust'', [ascii ''turn_away'', ascii ''cover_nose'']),
          (ascii ''neutral'', [ascii ''idle'', ascii ''look_around''])] \<rparr>"

text \<open>\<open>segment.emotion || 'neutral'\<close>.\<close>

definition emotionOrNeutral :: "SentenceSegment \<Rightarrow> jsstring" where
  "emotionOrNeutral seg =
     (if truthyString (emotion seg) then the (emotion seg) else ascii ''neutral'')"

definition mapEmotionToExpression ::
  "GenerationConfig \<Rightarrow> jsstring \<Rightarrow> ExpressionValue" where
  "mapEmotionToExpression cfg emo =
     (case getProperty (emotionToExpression cfg) emo of
        Own v \<Rightarrow> if v \<noteq> [] then ExpressionName v else ExpressionName (defaultExpression cfg)
      | Inherited key \<Rightarrow> ExpressionMember key
      | Undefined \<Rightarrow> ExpressionName (defaultExpression cfg))"

text \<open>
  \<open>motions[Math.floor(Math.random() * motions.length)]\<close> is the element at some index
  below the length, whichever the draw selects: the draw is a number, reduced modulo the
  length. On an empty array the index is 0 and the element is \<open>undefined\<close>. An
  inherited member is truthy, so the default is not taken; it has no element at any
  index, and the element is \<open>undefined\<close> as well.
\<close>

definition pickMotion :: "nat \<Rightarrow> jsstring list \<Rightarrow> jsstring option list" where
  "pickMotion draw motions =
     (if motions = [] then [None] else [Some (motions ! (draw mod length motions))])"

definition mapEmotionToMotion ::
  "GenerationConfig \<Rightarrow> nat \<Rightarrow> jsstring \<Rightarrow> jsstring option list" where
  "mapEmotionToMotion cfg draw emo =
     (case getProperty (emotionToMotion cfg) emo of
        Own motions \<Rightarrow> pickMotion draw motions
      | Inherited key \<Rightarrow> [None]
      | Undefined \<Rightarrow> pickMotion draw (defaultMotion cfg))"

definition determineCameraMode ::
  "GenerationConfig \<Rightarrow> SentenceSegment \<Rightarrow> RenderStreamHistory \<Rightarrow> CameraMode" where
  "determineCameraMode cfg seg history =
     (if truthyBool (emphasis seg) then CameraCloseUp
      else if emotion seg = Some (ascii ''surprised'') \<or> emotion seg = Some (ascii ''fear'')
      then CameraFront
      else if emotion seg = Some (ascii ''sad'') \<or> emotion seg = Some (ascii ''cry'')
      then CameraBack
      else
        let recentStreams = sliceLast 3 (streams history);
            lastCamera = (if recentStreams = [] then None
                          else camera (recentStreams ! (length recentStreams - 1)))
        in case lastCamera of
             None \<Rightarrow> defaultCamera cfg
           | Some cam \<Rightarrow> if cam \<noteq> CameraNone then cam else defaultCamera cfg)"

definition determineScene ::
  "(jsstring \<Rightarrow> jsstring) \<Rightarrow> SentenceSegment \<Rightarrow> RenderStreamHistory \<Rightarrow> jsstring option" where
  "determineScene lc seg history =
     (let t = lc (segText seg) in
      if includesJs t [0x529E, 0x516C, 0x5BA4] \<or> includesJs t [0x5DE5, 0x4F5C]
      then Some (ascii ''office'')
      else if includesJs t [0x5BB6] \<or> includesJs t [0x623F, 0x95F4]
      then Some (ascii ''home'')
      else if includesJs t [0x516C, 0x56ED] \<or> includesJs t [0x6237, 0x5916]
      then Some (ascii ''park'')
      else if includesJs t [0x821E, 0x53F0] \<or> includesJs t [0x8868, 0x6F14]
      then Some (ascii ''stage'')
      else
        let recentStreams = sliceLast 5 (streams history);
            lastScene = (case find (\<lambda>s. truthyString (scene s)) recentStreams of
                           None \<Rightarrow> None | Some s \<Rightarrow> scene s)
        in if truthyString lastScene then lastScene else Some (ascii ''default''))"

definition determineBackground ::
  "SentenceSegment \<Rightarrow> RenderStreamHistory \<Rightarrow> jsstring option" where
  "determineBackground seg history =
     (let emo = emotionOrNeutral seg in
      if emo = ascii ''happy'' then Some (ascii ''bright_bg'')
      else if emo = ascii ''sad'' \<or> emo = ascii ''cry'' then Some (ascii ''dark_bg'')
      else if emo = ascii ''fear'' then Some (ascii ''mysterious_bg'')
      else Some (ascii ''neutral_bg''))"

text \<open>\<open>generateAudio\<close> returns \<open>undefined\<close> on every path.\<close>

definition generateAudio :: "jsstring \<Rightarrow> jsstring option" where
  "generateAudio t = None"

definition generate ::
  "(jsstring \<Rightarrow> jsstring) \<Rightarrow> GenerationConfig \<Rightarrow> Entropy \<Rightarrow> SentenceSegment \<Rightarrow>
   RenderStreamHistory \<Rightarrow> RenderStream" where
  "generate lc cfg en seg history =
     \<lparr> streamText = Some (segText seg),
       audio = generateAudio (segText seg),
       expression = Some (mapEmotionToExpression cfg (emotionOrNeutral seg)),
       motion = Some (mapEmotionToMotion cfg (motionDraw en) (emotionOrNeutral seg)),
       camera = Some (determineCameraMode cfg seg history),
       scene = determineScene lc seg history,
       background = determineBackground seg history,
       timestamp = Some (timestampNow en),
       streamId = Some (generateStreamId en) \<rparr>"

section \<open>VirtualHumanController\<close>

text \<open>
  A thrown value: what a module throws, or the \<open>Error\<close> that an \<open>EventEmitter\<close>
  throws when the event named \<open>error\<close> is emitted and no listener is attached for it;
  that error carries the payload of the event, here the caught error and the context.
  Modules are registered under a name and fetched with a cast, so the controller runs
  whatever \<open>segment\<close>, \<open>generate\<close> and \<open>transition\<close> the registered objects have;
  each is a function here, and a rejected promise is the value \<open>Inl\<close>.
\<close>

datatype Thrown = Thrown string | UnhandledError Thrown jsstring

record VirtualHumanConfig =
  enableSmartSegmentation :: bool
  enableSeamlessTransition :: bool
  enableEmotionAnalysis :: bool
  configDefaultExpression :: jsstring
  configDefaultMotion :: "jsstring list"
  configDefaultCamera :: CameraMode

record Modules =
  segmentationModule :: "(jsstring \<Rightarrow> Thrown + SentenceSegment list) option"
  generationModule ::
    "(Entropy \<Rightarrow> SentenceSegment \<Rightarrow> RenderStreamHistory \<Rightarrow> Thrown + RenderStream) option"
  transitionModule :: "(RenderStream \<Rightarrow> RenderStreamHistory \<Rightarrow> Thrown + unit) option"

datatype Event =
    ModuleRegistered jsstring
  | StateChanged RenderStreamState RenderStreamState   \<comment> \<open>\<open>oldState\<close>, \<open>newState\<close>\<close>
  | ConfigUpdated VirtualHumanConfig
  | HistoryCleared
  | AiResponseReceived jsstring
  | AiResponseProcessed jsstring "SentenceSegment list"
  | RenderStreamReady RenderStream
  | ErrorEvent Thrown jsstring                          \<comment> \<open>\<open>error\<close>, \<open>context\<close>\<close>

text \<open>
  The controller's fields, the events it has emitted so far, in order, and the delays
  (in milliseconds) of the recovery callbacks handed to \<open>setTimeout\<close> and not yet run.
  The controller is an \<open>EventEmitter\<close>. Listeners are collaborators outside it and
  are taken not to throw: \<open>emit\<close> records the event and returns. The one exception
  is the emitter's own: \<open>emit('error', \<dots>)\<close> throws when no listener is attached for
  \<open>error\<close>, so the controller also carries the number of such listeners. One call
  of an \<open>async\<close> method is run to its end; two calls that overlap in time are outside
  this model.
\<close>

record Controller =
  state :: RenderStreamState
  history :: RenderStreamHistory
  config :: VirtualHumanConfig
  modules :: Modules
  emitted :: "Event list"
  timers :: "nat list"
  errorListeners :: nat

definition emit :: "Event \<Rightarrow> Controller \<Rightarrow> Controller" where
  "emit ev c = c\<lparr>emitted := emitted c @ [ev]\<rparr>"

definition newHistory :: "nat \<Rightarrow> RenderStreamHistory" where
  "newHistory m = \<lparr> streams = [], currentIndex = - 1, maxHistory = m \<rparr>"

definition newController :: "VirtualHumanConfig \<Rightarrow> Controller" where
  "newController cfg =
     \<lparr> state = IDLE,
       history = newHistory 50,
       config = cfg,
       modules = \<lparr> segmentationModule = None, generationModule = None,
                   transitionModule = None \<rparr>,
       emitted = [],
       timers = [],
       errorListeners = 0 \<rparr>"

text \<open>\<open>on('error', listener)\<close> and \<open>removeAllListeners()\<close>.\<close>

definition onError :: "Controller \<Rightarrow> Controller" where
  "onError c = c\<lparr>errorListeners := Suc (errorListeners c)\<rparr>"

definition removeAllListeners :: "Controller \<Rightarrow> Controller" where
  "removeAllListeners c = c\<lparr>errorListeners := 0\<rparr>"

definition setState :: "RenderStreamState \<Rightarrow> Controller \<Rightarrow> Controller" where
  "setState newState c =
     (let oldState = state c in emit (StateChanged oldState newState) (c\<lparr>state := newState\<rparr>))"

definition updateConfig ::
  "(VirtualHumanConfig \<Rightarrow> VirtualHumanConfig) \<Rightarrow> Controller \<Rightarrow> Controller" where
  "updateConfig newConfig c =
     (let c1 = c\<lparr>config := newConfig (config c)\<rparr> in emit (ConfigUpdated (config c1)) c1)"

text \<open>\<open>push\<close>, then \<open>shift\<close> when the array has grown beyond \<open>maxHistory\<close>.\<close>

definition addToHistory :: "RenderStream \<Rightarrow> RenderStreamHistory \<Rightarrow> RenderStreamHistory" where
  "addToHistory stream h =
     (let h1 = h\<lparr>streams := streams h @ [stream]\<rparr>;
          h2 = h1\<lparr>currentIndex := int (length (streams h1)) - 1\<rparr>
      in if length (streams h2) > maxHistory h2
         then h2\<lparr>streams := tl (streams h2), currentIndex := currentIndex h2 - 1\<rparr>
         else h2)"

definition clearHistoryStore :: "RenderStreamHistory \<Rightarrow> RenderStreamHistory" where
  "clearHistoryStore h = h\<lparr>streams := [], currentIndex := - 1\<rparr>"

definition clearHistory :: "Controller \<Rightarrow> Controller" where
  "clearHistory c = emit HistoryCleared (c\<lparr>history := clearHistoryStore (history c)\<rparr>)"

definition segmentText :: "jsstring \<Rightarrow> Controller \<Rightarrow> Thrown + SentenceSegment list" where
  "segmentText t c =
     (case segmentationModule (modules c) of
        Some m \<Rightarrow>
          if enableSmartSegmentation (config c) then m t
          else Inr [\<lparr> segText = t, emotion = Some (ascii ''neutral''),
                      emphasis = Some False, pause = Some 0 \<rparr>]
      | None \<Rightarrow>
          Inr [\<lparr> segText = t, emotion = Some (ascii ''neutral''),
                 emphasis = Some False, pause = Some 0 \<rparr>])"

definition generateRenderStream ::
  "Entropy \<Rightarrow> SentenceSegment \<Rightarrow> Controller \<Rightarrow> Thrown + RenderStream" where
  "generateRenderStream en seg c =
     (case generationModule (modules c) of
        Some g \<Rightarrow> g en seg (history c)
      | None \<Rightarrow>
          Inr \<lparr> streamText = Some (segText seg),
                audio = None,
                expression = Some (ExpressionName
                                     (if truthyString (emotion seg) then the (emotion seg)
                                      else configDefaultExpression (config c))),
                motion = Some (map Some (configDefaultMotion (config c))),
                camera = Some (configDefaultCamera (config c)),
                scene = None,
                background = None,
                timestamp = Some (timestampNow en),
                streamId = Some (generateStreamId en) \<rparr>)"

definition triggerSeamlessTransition ::
  "RenderStream \<Rightarrow> Controller \<Rightarrow> (Thrown + unit) \<times> Controller" where
  "triggerSeamlessTransition renderStream c =
     (if \<not> enableSeamlessTransition (config c)
      then (Inr (), emit (RenderStreamReady renderStream) c)
      else
        case transitionModule (modules c) of
          Some tm \<Rightarrow>
            (let c1 = setState TRANSITIONING c in
             case tm renderStream (history c1) of
               Inl e \<Rightarrow> (Inl e, c1)
             | Inr u \<Rightarrow> (Inr (), emit (RenderStreamReady renderStream) (setState RENDERING c1)))
        | None \<Rightarrow> (Inr (), emit (RenderStreamReady renderStream) c))"

text \<open>
  The \<open>for\<close> loop of \<open>processAIResponse\<close> from index \<open>i\<close> on; \<open>draws i\<close> is what
  the \<open>i\<close>-th \<open>generate\<close> of the call draws. A throw leaves the loop with the state
  reached so far.
\<close>

fun processSegments ::
  "(nat \<Rightarrow> Entropy) \<Rightarrow> nat \<Rightarrow> SentenceSegment list \<Rightarrow> Controller \<Rightarrow>
   (Thrown + unit) \<times> Controller" where
  "processSegments draws i [] c = (Inr (), c)"
| "processSegments draws i (seg # segs) c =
     (case generateRenderStream (draws i) seg c of
        Inl e \<Rightarrow> (Inl e, c)
      | Inr renderStream \<Rightarrow>
          (let c1 = c\<lparr>history := addToHistory renderStream (history c)\<rparr> in
           case triggerSeamlessTransition renderStream c1 of
             (Inl e, c2) \<Rightarrow> (Inl e, c2)
           | (Inr u, c2) \<Rightarrow> processSegments draws (Suc i) segs c2))"

text \<open>The body of the \<open>try\<close> block up to the end of the loop.\<close>

definition tryBlock ::
  "(nat \<Rightarrow> Entropy) \<Rightarrow> jsstring \<Rightarrow> Controller \<Rightarrow>
   (Thrown + SentenceSegment list) \<times> Controller" where
  "tryBlock draws t c =
     (let c1 = emit (AiResponseReceived t) (setState PROCESSING c) in
      case segmentText t c1 of
        Inl e \<Rightarrow> (Inl e, c1)
      | Inr segments \<Rightarrow>
          (case processSegments draws 0 segments c1 of
             (Inl e, c2) \<Rightarrow> (Inl e, c2)
           | (Inr u, c2) \<Rightarrow> (Inr segments, c2)))"

text \<open>
  The \<open>catch\<close> block: state, error event, the recovery timer, and the rethrow. Without
  a listener for \<open>error\<close> the \<open>emit\<close> throws, and the block ends there with the
  emitter's error: no timer, and the caught error is not rethrown.
\<close>

definition catchBlock :: "Thrown \<Rightarrow> Controller \<Rightarrow> (Thrown + unit) \<times> Controller" where
  "catchBlock e c =
     (let c1 = setState ERROR c in
      if errorListeners c1 = 0
      then (Inl (UnhandledError e (ascii ''processAIResponse'')), c1)
      else
        let c2 = emit (ErrorEvent e (ascii ''processAIResponse'')) c1;
            c3 = c2\<lparr>timers := timers c2 @ [5000]\<rparr>
        in (Inl e, c3))"

definition processAIResponse ::
  "(nat \<Rightarrow> Entropy) \<Rightarrow> jsstring \<Rightarrow> Controller \<Rightarrow> (Thrown + unit) \<times> Controller" where
  "processAIResponse draws t c =
     (case tryBlock draws t c of
        (Inr segments, c2) \<Rightarrow>
          (Inr (), emit (AiResponseProcessed t segments) (setState IDLE c2))
      | (Inl e, c2) \<Rightarrow> catchBlock e c2)"

text \<open>
  The callback given to \<open>setTimeout\<close>, and the moment the oldest pending timer fires:
  the timer is gone and its callback runs.
\<close>

definition recoveryCallback :: "Controller \<Rightarrow> Controller" where
  "recoveryCallback c = (if state c = ERROR then setState IDLE c else c)"

definition timerFires :: "Controller \<Rightarrow> Controller" where
  "timerFires c =
     (case timers c of [] \<Rightarrow> c | d # ds \<Rightarrow> recoveryCallback (c\<lparr>timers := ds\<rparr>))"

section \<open>TransitionModule and VirtualHumanFactory\<close>

text \<open>
  Every step of \<open>TransitionModule.transition\<close> awaits a \<open>delay\<close> and nothing else
  (the calls into the viewer are comments), so the promise resolves for every render
  stream and history and no state of the controller changes.
\<close>

definition transition :: "RenderStream \<Rightarrow> RenderStreamHistory \<Rightarrow> Thrown + unit" where
  "transition renderStream h = Inr ()"

text \<open>\<open>registerModule('transition', module)\<close>.\<close>

definition registerTransitionModule ::
  "(RenderStream \<Rightarrow> RenderStreamHistory \<Rightarrow> Thrown + unit) \<Rightarrow> Controller \<Rightarrow> Controller" where
  "registerTransitionModule tm c =
     emit (ModuleRegistered (ascii ''transition''))
       (c\<lparr>modules := (modules c)\<lparr>transitionModule := Some tm\<rparr>\<rparr>)"

definition registerModules :: "(jsstring \<Rightarrow> jsstring) \<Rightarrow> Controller \<Rightarrow> Controller" where
  "registerModules lc c =
     (let c1 = emit (ModuleRegistered (ascii ''segmentation''))
                 (c\<lparr>modules := (modules c)\<lparr>segmentationModule :=
                      Some (\<lambda>t. Inr (segment lc defaultSegmentationConfig t))\<rparr>\<rparr>);
          c2 = emit (ModuleRegistered (ascii ''generation''))
                 (c1\<lparr>modules := (modules c1)\<lparr>generationModule :=
                      Some (\<lambda>en seg h. Inr (generate lc defaultGenerationConfig en seg h))\<rparr>\<rparr>)
      in registerTransitionModule transition c2)"

definition createController ::
  "(jsstring \<Rightarrow> jsstring) \<Rightarrow> VirtualHumanConfig \<Rightarrow> Controller" where
  "createController lc cfg = registerModules lc (newController cfg)"


definition createHighPerformanceController :: "(jsstring \<Rightarrow> jsstring) \<Rightarrow> Controller" where
  "createHighPerformanceController lc =
     createController lc
       \<lparr> enableSmartSegmentation = True,
         enableSeamlessTransition = True,
         enableEmotionAnalysis = True,
         configDefaultExpression = ascii ''neutral'',
         configDefaultMotion = [ascii ''idle''],
         configDefaultCamera = CameraSmart \<rparr>"

section \<open>CameraModeAdapter\<close>

text \<open>
  The adapter's own fields. Its \<open>renderStreamReady\<close> listener, \<open>handleRenderStream\<close>,
  runs inside \<open>emit\<close> and records the stream id before it drives the viewer; the viewer
  is a collaborator, the record of ids is the adapter's.
\<close>

record CameraModeAdapter =
  isProcessing :: bool
  processedStreamIds :: "jsstring option list"

text \<open>
  The constructor: the fields, and \<open>setupEventListeners\<close>, which attaches to the
  controller a listener for \<open>renderStreamReady\<close>, one for \<open>stateChanged\<close> and one for
  \<open>error\<close>.
\<close>

definition setupEventListeners :: "Controller \<Rightarrow> Controller" where
  "setupEventListeners c = onError c"

definition newCameraModeAdapter :: "Controller \<Rightarrow> CameraModeAdapter \<times> Controller" where
  "newCameraModeAdapter c =
     (\<lparr> isProcessing = False, processedStreamIds = [] \<rparr>, setupEventListeners c)"

definition noteRenderStream :: "jsstring option list \<Rightarrow> Event \<Rightarrow> jsstring option list" where
  "noteRenderStream ids ev =
     (case ev of
        RenderStreamReady renderStream \<Rightarrow>
          if List.member ids (streamId renderStream) then ids
          else ids @ [streamId renderStream]
      | _ \<Rightarrow> ids)"

definition handleAIResponse ::
  "(nat \<Rightarrow> Entropy) \<Rightarrow> jsstring \<Rightarrow> CameraModeAdapter \<times> Controller \<Rightarrow>
   (Thrown + unit) \<times> CameraModeAdapter \<times> Controller" where
  "handleAIResponse draws t ac =
     (let a = fst ac; c = snd ac in
      if isProcessing a then (Inr (), a, c)
      else
        let a1 = a\<lparr>isProcessing := True\<rparr>;
            a2 = (if length (processedStreamIds a1) > 100
                  then a1\<lparr>processedStreamIds := []\<rparr> else a1);
            rc = processAIResponse draws t c;
            a3 = a2\<lparr>processedStreamIds :=
                       foldl noteRenderStream (processedStreamIds a2)
                         (drop (length (emitted c)) (emitted (snd rc)))\<rparr>
        in (fst rc, a3\<lparr>isProcessing := False\<rparr>, snd rc))"

section \<open>SmartSentenceSegmenter\<close>

record SmartSentenceSegmenter =
  sentenceBuffer :: jsstring
  lastProcessedContent :: jsstring

text \<open>
  The regular expression of \<open>extractCompleteSentences\<close> has two alternatives behind
  \<open>^\<close>. Without the \<open>s\<close> flag \<open>.\<close> matches any code unit but a line terminator, so
  \<open>.+\<close> and \<open>.{10,}\<close> stay inside the first line of the buffer, of \<open>k\<close> code units.
  Both are greedy: the engine tries the longest run first and gives code units back one
  by one until the class behind it matches the next code unit. The first alternative
  wins whenever it matches at all.
\<close>

definition isLineTerminator :: "jschar \<Rightarrow> bool" where
  "isLineTerminator c = (c = 0x000A \<or> c = 0x000D \<or> c = 0x2028 \<or> c = 0x2029)"

definition isSentenceEnd :: "jschar \<Rightarrow> bool" where
  "isSentenceEnd c =
     (c = 0x000A \<or> c = 0x007E \<or> c = 0x3002 \<or> c = 0xFF01 \<or> c = 0xFF0E \<or> c = 0xFF1F)"

definition isSoftSeparator :: "jschar \<Rightarrow> bool" where
  "isSoftSeparator c = (c = 0x002C \<or> c = 0x3001)"

text \<open>
  \<open>backtrack cls buf lo n\<close>: the run has \<open>n\<close> code units and \<open>cls\<close> is tried on the
  code unit behind it; on failure the run gives one code unit back, down to \<open>lo\<close>
  code units (and at least one). The result is the length of the run of the match.
\<close>

fun backtrack :: "(jschar \<Rightarrow> bool) \<Rightarrow> jsstring \<Rightarrow> nat \<Rightarrow> nat \<Rightarrow> nat option" where
  "backtrack cls buf lo 0 = None"
| "backtrack cls buf lo (Suc n) =
     (if Suc n < lo then None
      else if Suc n < length buf \<and> cls (buf ! Suc n) then Some (Suc n)
      else backtrack cls buf lo n)"

definition firstLineLength :: "jsstring \<Rightarrow> nat" where
  "firstLineLength buf = length (takeWhile (\<lambda>c. \<not> isLineTerminator c) buf)"

definition sentenceMatch :: "jsstring \<Rightarrow> jsstring option" where
  "sentenceMatch buf =
     (let k = firstLineLength buf in
      case backtrack isSentenceEnd buf 1 k of
        Some n \<Rightarrow> Some (take (Suc n) buf)
      | None \<Rightarrow>
          (case backtrack isSoftSeparator buf 10 k of
             Some n \<Rightarrow> Some (take (Suc n) buf)
           | None \<Rightarrow> None))"

definition extractCompleteSentences ::
  "SmartSentenceSegmenter \<Rightarrow> jsstring list \<times> SmartSentenceSegmenter" where
  "extractCompleteSentences st =
     (case sentenceMatch (sentenceBuffer st) of
        Some sentence \<Rightarrow>
          ([sentence],
           st\<lparr>sentenceBuffer := trimStart (drop (length sentence) (sentenceBuffer st))\<rparr>)
      | None \<Rightarrow> ([], st))"

definition reset :: "SmartSentenceSegmenter \<Rightarrow> SmartSentenceSegmenter" where
  "reset st = st\<lparr>sentenceBuffer := [], lastProcessedContent := []\<rparr>"

definition newSegmenter :: SmartSentenceSegmenter where
  "newSegmenter = \<lparr> sentenceBuffer = [], lastProcessedContent = [] \<rparr>"

definition processNewContent ::
  "jsstring \<Rightarrow> SmartSentenceSegmenter \<Rightarrow> jsstring list \<times> SmartSentenceSegmenter" where
  "processNewContent content st =
     (if content = lastProcessedContent st then ([], st)
      else if length content < length (lastProcessedContent st)
      then ([], (reset st)\<lparr>lastProcessedContent := content\<rparr>)
      else
        let newContent = drop (length (lastProcessedContent st)) content in
        if length newContent = 0 then ([], st)
        else extractCompleteSentences
               (st\<lparr>sentenceBuffer := sentenceBuffer st @ newContent,
                    lastProcessedContent := content\<rparr>))"

section \<open>Vocabulary of the properties\<close>

text \<open>
  The two operations on the history store, a run of them, and what the specification
  calls the entries appended so far: those appended since the last clear, in order.
\<close>

datatype HistoryOp = Append RenderStream | ClearHistory

fun applyOp :: "RenderStreamHistory \<Rightarrow> HistoryOp \<Rightarrow> RenderStreamHistory" where
  "applyOp h (Append s) = addToHistory s h"
| "applyOp h ClearHistory = clearHistoryStore h"

fun appendedSinceClear :: "RenderStream list \<Rightarrow> HistoryOp \<Rightarrow> RenderStream list" where
  "appendedSinceClear acc (Append s) = acc @ [s]"
| "appendedSinceClear acc ClearHistory = []"

text \<open>Kinds of events, and the render streams announced in a list of events.\<close>

fun isErrorEvent :: "Event \<Rightarrow> bool" where
  "isErrorEvent (ErrorEvent e ctx) = True"
| "isErrorEvent ev = False"


fun readyStreams :: "Event list \<Rightarrow> RenderStream list" where
  "readyStreams [] = []"
| "readyStreams (RenderStreamReady rs # evs) = rs # readyStreams evs"
| "readyStreams (ev # evs) = readyStreams evs"

text \<open>The events a call has added to those emitted before it.\<close>

definition newEvents :: "Controller \<Rightarrow> Controller \<Rightarrow> Event list" where
  "newEvents c c' = drop (length (emitted c)) (emitted c')"

subsection \<open>Concrete inputs\<close>

text \<open>
  Draws for the \<open>i\<close>-th instruction of a call; a reply of one sentence; a reply that
  starts with a full stop; a clause of ten characters, a fullwidth comma and two more
  characters; a streamed content of two lines; a segment that is neutral and not
  emphasised; two history entries with the camera behind the avatar.
\<close>

definition exampleDraws :: "nat \<Rightarrow> Entropy" where
  "exampleDraws i =
     \<lparr> timestampNow = 1700 + i, motionDraw = i, idNow = 1700 + i, idDraw = ascii ''k3x'' \<rparr>"

definition helloText :: jsstring where
  "helloText = [0x4F60, 0x597D, 0x3002]"

definition leadingStopText :: jsstring where
  "leadingStopText = [0x3002, 0x4F60, 0x597D]"

definition softText :: jsstring where
  "softText = [0x4E00, 0x4E8C, 0x4E09, 0x56DB, 0x4E94, 0x516D, 0x4E03, 0x516B, 0x4E5D, 0x5341,
               0xFF0C, 0x540E, 0x9762]"

definition twoLines :: jsstring where
  "twoLines = [0x61, 0x3002, 0x0A, 0x62, 0x3002, 0x63]"

definition neutralSegment :: SentenceSegment where
  "neutralSegment =
     \<lparr> segText = [0x4F60, 0x597D], emotion = Some (ascii ''neutral''),
       emphasis = Some False, pause = Some 0 \<rparr>"

definition backStream :: "nat \<Rightarrow> RenderStream" where
  "backStream n =
     \<lparr> streamText = Some [0x4F60], audio = None, expression = Some (ExpressionName (ascii ''sad'')),
       motion = Some [Some (ascii ''sigh'')], camera = Some CameraBack, scene = None,
       background = Some (ascii ''dark_bg''), timestamp = Some n,
       streamId = Some (decimal n) \<rparr>"

text \<open>
  A reply that ends in an exclamation mark, its segment, and the render stream the
  factory's generator makes of it on an empty history. A transition module whose
  \<open>transition\<close> rejects the expression \<open>surprised\<close> and resolves otherwise,
  registered over the factory's in a controller with seamless transitions enabled, as
  \<open>createCustomController\<close> returns it for such a custom module, with no listener; that controller once an adapter
  has been constructed on it; the latter where the \<open>try\<close> block of a call on the
  reply reaches the segmentation, and after the call; and the former after the same
  call.
\<close>

definition exclaimText :: jsstring where
  "exclaimText = [0x4F60, 0x597D, 0xFF01]"

definition exclaimSegment :: SentenceSegment where
  "exclaimSegment =
     \<lparr> segText = exclaimText, emotion = Some (ascii ''surprised''), emphasis = Some True,
       pause = Some 300 \<rparr>"

definition exclaimStream :: RenderStream where
  "exclaimStream =
     generate asciiLower defaultGenerationConfig (exampleDraws 0) exclaimSegment (newHistory 50)"

definition pickyTransition :: "RenderStream \<Rightarrow> RenderStreamHistory \<Rightarrow> Thrown + unit" where
  "pickyTransition renderStream h =
     (if expression renderStream = Some (ExpressionName (ascii ''surprised''))
      then Inl (Thrown ''transition failed'') else Inr ())"

definition pickyController :: Controller where
  "pickyController =
     registerTransitionModule pickyTransition (createHighPerformanceController asciiLower)"

definition adaptedController :: Controller where
  "adaptedController = snd (newCameraModeAdapter pickyController)"

definition pickyReceived :: Controller where
  "pickyReceived =
     emit (AiResponseReceived exclaimText) (setState PROCESSING adaptedController)"

definition errorController :: Controller where
  "errorController = snd (processAIResponse exampleDraws exclaimText adaptedController)"

definition strandedController :: Controller where
  "strandedController = snd (processAIResponse exampleDraws exclaimText pickyController)"

text \<open>
  The next call, on \<open>helloText\<close>, with later draws: the segment of \<open>helloText\<close>, its
  render stream after the failed call, and its render stream on an empty history.
\<close>

definition laterDraws :: "nat \<Rightarrow> Entropy" where
  "laterDraws i = exampleDraws (i + 10)"

definition helloSegment :: SentenceSegment where
  "helloSegment =
     \<lparr> segText = helloText, emotion = Some (ascii ''neutral''), emphasis = Some False,
       pause = Some 500 \<rparr>"

definition laterStream :: RenderStream where
  "laterStream =
     generate asciiLower defaultGenerationConfig (laterDraws 0) helloSegment
       (history errorController)"


definition busyAdapter :: CameraModeAdapter where
  "busyAdapter = \<lparr> isProcessing = True, processedStreamIds = [] \<rparr>"

definition idleAdapter :: CameraModeAdapter where
  "idleAdapter = fst (newCameraModeAdapter pickyController)"

text \<open>
  A text of 106 code units with no hard boundary: ten letters, a comma, 95 letters. A
  streamed content with a comma behind ten digits and no sentence end, and one with
  neither.
\<close>

definition longText :: jsstring where
  "longText = replicate 10 0x61 @ 0x2C # replicate 95 0x62"

definition commaText :: jsstring where
  "commaText = [0x30, 0x31, 0x32, 0x33, 0x34, 0x35, 0x36, 0x37, 0x38, 0x39, 0x2C, 0x61, 0x62]"

definition plainText :: jsstring where
  "plainText = [0x61, 0x62, 0x63]"

text \<open>
  Where the boundary rule of the streaming segmenter finds a boundary in a buffer: a
  sentence end that closes a run of \<open>n\<close> code units of the first line, \<open>n\<close> at least
  one (the line feed that ends the first line counts); a soft separator that closes a
  run of \<open>n\<close> code units of the first line, \<open>n\<close> at least ten.
\<close>

definition sentenceEndAt :: "jsstring \<Rightarrow> nat \<Rightarrow> bool" where
  "sentenceEndAt buf n =
     (0 < n \<and> n \<le> firstLineLength buf \<and> n < length buf \<and> isSentenceEnd (buf ! n))"

definition softSeparatorAt :: "jsstring \<Rightarrow> nat \<Rightarrow> bool" where
  "softSeparatorAt buf n =
     (10 \<le> n \<and> n \<le> firstLineLength buf \<and> n < length buf \<and> isSoftSeparator (buf ! n))"

section \<open>Properties\<close>

subsection \<open>The history store\<close>

lemma addToHistory_window:
  assumes "streams h = drop (length l - maxHistory h) l"
    and "currentIndex h = int (length (streams h)) - 1"
  shows "streams (addToHistory s h) = drop (length (l @ [s]) - maxHistory h) (l @ [s])
       \<and> currentIndex (addToHistory s h) = int (length (streams (addToHistory s h))) - 1
       \<and> maxHistory (addToHistory s h) = maxHistory h"
proof (cases "length l < maxHistory h")
  case True
  then show ?thesis using assms by (simp add: addToHistory_def Let_def)
next
  case False
  then have "length (streams h) = maxHistory h" using assms by simp
  moreover have "length (l @ [s]) - maxHistory h = Suc (length l - maxHistory h)"
    using False by simp
  moreover have "tl (drop (length l - maxHistory h) l @ [s]) = drop (Suc (length l - maxHistory h)) (l @ [s])"
  proof -
    have "drop (length l - maxHistory h) l @ [s] = drop (length l - maxHistory h) (l @ [s])"
      by simp
    then show ?thesis by (metis tl_drop drop_Suc)
  qed
  ultimately show ?thesis using assms False
    by (simp add: addToHistory_def Let_def)
qed

lemma history_ops:
  "streams (foldl applyOp (newHistory m) ops) = drop (length (foldl appendedSinceClear [] ops) - m) (foldl appendedSinceClear [] ops)
   \<and> currentIndex (foldl applyOp (newHistory m) ops) = int (length (streams (foldl applyOp (newHistory m) ops))) - 1
   \<and> maxHistory (foldl applyOp (newHistory m) ops) = m"
proof (induction ops rule: rev_induct)
  case Nil
  then show ?case by (simp add: newHistory_def)
next
  case (snoc op ops)
  show ?case
  proof (cases op)
    case (Append s)
    then show ?thesis using snoc addToHistory_window[of "foldl applyOp (newHistory m) ops" "foldl appendedSinceClear [] ops" s]
      by simp
  next
    case ClearHistory
    then show ?thesis using snoc by (simp add: clearHistoryStore_def)
  qed
qed

text \<open>
  Claim C5. Start from the history of a new controller and run any sequence of
  \<open>addToHistory\<close> and \<open>clearHistory\<close>. The store then holds at most \<open>maxHistory\<close>
  entries; they are the last \<open>maxHistory\<close> of the entries appended since the last clear,
  in the order of appending, so the oldest are the ones evicted; and \<open>currentIndex\<close> is
  the length minus one, which is \<open>-1\<close> on an empty store. The constructor sets
  \<open>maxHistory\<close> to 50; the statement holds for any bound \<open>m\<close>.
\<close>

theorem history_bounded_fifo:
  "length (streams (foldl applyOp (newHistory m) ops)) \<le> m
   \<and> streams (foldl applyOp (newHistory m) ops) =
       drop (length (foldl appendedSinceClear [] ops) - m) (foldl appendedSinceClear [] ops)
   \<and> currentIndex (foldl applyOp (newHistory m) ops) =
       int (length (streams (foldl applyOp (newHistory m) ops))) - 1
   \<and> maxHistory (foldl applyOp (newHistory m) ops) = m
   \<and> history (newController cfg) = newHistory 50"
proof -
  have "length (drop (length (foldl appendedSinceClear [] ops) - m) (foldl appendedSinceClear [] ops)) \<le> m"
    by simp
  then show ?thesis
    using history_ops [of m ops] by (simp add: newController_def)
qed

subsection \<open>Segmentation keeps the text\<close>

lemma filter_not_dropWhile: "filter (\<lambda>c. \<not> P c) (dropWhile P xs) = filter (\<lambda>c. \<not> P c) xs"
  by (induction xs) auto

lemma nonWhitespace_trim: "nonWhitespace (trim s) = nonWhitespace s"
proof -
  have "nonWhitespace (trimEnd s') = nonWhitespace s'" for s'
  proof -
    have "filter (\<lambda>c. \<not> isWhiteSpace c) (rev (dropWhile isWhiteSpace (rev s')))
        = rev (filter (\<lambda>c. \<not> isWhiteSpace c) (dropWhile isWhiteSpace (rev s')))"
      by (simp add: rev_filter)
    also have "\<dots> = rev (filter (\<lambda>c. \<not> isWhiteSpace c) (rev s'))"
      by (simp only: filter_not_dropWhile)
    also have "\<dots> = filter (\<lambda>c. \<not> isWhiteSpace c) s'"
      by (simp add: rev_filter)
    finally show ?thesis by (simp add: nonWhitespace_def trimEnd_def)
  qed
  then show ?thesis
    by (simp add: trim_def trimStart_def nonWhitespace_def filter_not_dropWhile)
qed

lemma nonWhitespace_blank: "trim s = [] \<Longrightarrow> nonWhitespace s = []"
  using nonWhitespace_trim [of s] by (simp add: nonWhitespace_def)

lemma nonWhitespace_append: "nonWhitespace (a @ b) = nonWhitespace a @ nonWhitespace b"
  by (simp add: nonWhitespace_def)

lemma nonWhitespace_concat: "nonWhitespace (concat xs) = concat (map nonWhitespace xs)"
  by (induction xs) (simp_all add: nonWhitespace_append, simp add: nonWhitespace_def)

lemma concat_matchSentences: "concat (matchSentences t) = dropWhile isHardBoundary t"
proof (induction t rule: matchSentences.induct)
  case 1
  then show ?case by simp
next
  case (2 c cs)
  show ?case
  proof (cases "isHardBoundary c")
    case True
    with 2 show ?thesis by simp
  next
    case False
    define rest where "rest = dropWhile (\<lambda>x. \<not> isHardBoundary x) (c # cs)"
    have ih: "concat (matchSentences (dropWhile isHardBoundary rest)) = dropWhile isHardBoundary rest"
      using 2(2) [OF False refl, of rest "takeWhile isHardBoundary rest"] rest_def
      by (simp add: dropWhile_idem)
    have "concat (matchSentences (c # cs)) =
            takeWhile (\<lambda>x. \<not> isHardBoundary x) (c # cs) @ takeWhile isHardBoundary rest @
            concat (matchSentences (dropWhile isHardBoundary rest))"
      using False by (simp add: Let_def rest_def del: takeWhile.simps dropWhile.simps)
    also have "\<dots> = takeWhile (\<lambda>x. \<not> isHardBoundary x) (c # cs) @ rest"
      by (simp only: ih takeWhile_dropWhile_id)
    also have "\<dots> = c # cs"
      by (simp only: rest_def takeWhile_dropWhile_id)
    finally show ?thesis using False by simp
  qed
qed

lemma splitWords_nonWhitespace:
  "nonWhitespace (concat (map segText (splitWords cfg emo cur ws))) = nonWhitespace (cur @ ws)"
proof (induction ws arbitrary: cur)
  case Nil
  show ?case
  proof (cases "trim cur = []")
    case True
    then show ?thesis by (simp add: nonWhitespace_blank) (simp add: nonWhitespace_def)
  next
    case False
    then show ?thesis by (simp add: mkSegment_def)
  qed
next
  case (Cons w ws)
  have split: "nonWhitespace (cur @ w # ws) = nonWhitespace (cur @ [w]) @ nonWhitespace ws"
    by (simp add: nonWhitespace_def)
  show ?case
  proof (cases "List.member (punctuationMarks cfg) [w] \<and> minSegmentLength cfg \<le> length (cur @ [w])")
    case True
    then have "splitWords cfg emo cur (w # ws) =
                 mkSegment cfg emo (cur @ [w]) # splitWords cfg emo [] ws"
      by (simp add: Let_def)
    then have "nonWhitespace (concat (map segText (splitWords cfg emo cur (w # ws)))) =
                 nonWhitespace (cur @ [w]) @
                 nonWhitespace (concat (map segText (splitWords cfg emo [] ws)))"
      by (simp add: mkSegment_def nonWhitespace_def del: splitWords.simps)
    also have "\<dots> = nonWhitespace (cur @ [w]) @ nonWhitespace ws"
      using Cons.IH [of "[]"] by simp
    finally show ?thesis using split by simp
  next
    case False
    then have "splitWords cfg emo cur (w # ws) = splitWords cfg emo (cur @ [w]) ws"
      by (auto simp add: Let_def)
    then show ?thesis using Cons.IH [of "cur @ [w]"] by simp
  qed
qed

lemma segment_sentence_nonWhitespace:
  "nonWhitespace (concat (map segText
      (let emo = analyzeEmotion lc cfg sentence in
        if length sentence > maxSegmentLength cfg then splitLongSentence cfg sentence emo
        else [mkSegment cfg emo sentence]))) = nonWhitespace sentence"
  by (simp add: Let_def splitLongSentence_def splitWords_nonWhitespace mkSegment_def)

lemma segment_texts_nonWhitespace:
  "nonWhitespace (concat (map segText (segment lc cfg t))) =
   concat (map nonWhitespace (splitIntoSentences t))"
proof -
  have "nonWhitespace (concat (map segText (concat (map (\<lambda>sentence.
        let emo = analyzeEmotion lc cfg sentence in
        if length sentence > maxSegmentLength cfg then splitLongSentence cfg sentence emo
        else [mkSegment cfg emo sentence]) ss)))) = concat (map nonWhitespace ss)" for ss
  proof (induction ss)
    case Nil
    show ?case by (simp add: nonWhitespace_def)
  next
    case (Cons a ss)
    show ?case
      using Cons.IH segment_sentence_nonWhitespace [of lc cfg a]
      by (simp add: nonWhitespace_append)
  qed
  then show ?thesis by (simp add: segment_def)
qed

lemma splitIntoSentences_nonWhitespace:
  "concat (map nonWhitespace (splitIntoSentences t)) = nonWhitespace (dropWhile isHardBoundary t)"
proof -
  have "concat (map nonWhitespace (filter (\<lambda>s. length s > 0) (map trim ms))) =
        concat (map nonWhitespace ms)" for ms
  proof (induction ms)
    case Nil
    show ?case by simp
  next
    case (Cons a ms)
    show ?case
    proof (cases "trim a = []")
      case True
      then show ?thesis using Cons.IH by (simp add: nonWhitespace_blank)
    next
      case False
      then show ?thesis using Cons.IH by (simp add: nonWhitespace_trim)
    qed
  qed
  then show ?thesis
    by (simp add: splitIntoSentences_def nonWhitespace_concat [symmetric] concat_matchSentences)
qed

lemma segment_keeps_text:
  "nonWhitespace (concat (map segText (segment lc cfg t))) = nonWhitespace (dropWhile isHardBoundary t)"
  by (simp add: segment_texts_nonWhitespace splitIntoSentences_nonWhitespace)

lemmas segment_eval =
  segment_def splitIntoSentences_def isHardBoundary_def trim_def trimStart_def trimEnd_def
  isWhiteSpace_def mkSegment_def defaultSegmentationConfig_def Let_def

text \<open>
  Claim C4 says that the texts of the segments of \<open>segment(text)\<close>, concatenated and
  stripped of whitespace, are the non-whitespace characters of \<open>text\<close>. Lemma
  \<open>segment_keeps_text\<close> shows this for the text behind its leading run of boundary
  characters. The run itself is lost: on a reply that starts with a full stop the
  segments hold the two characters behind it and not the full stop.
\<close>

theorem segment_drops_leading_stop:
  "map segText (segment asciiLower defaultSegmentationConfig leadingStopText) = [[0x4F60, 0x597D]]
   \<and> nonWhitespace (concat (map segText (segment asciiLower defaultSegmentationConfig leadingStopText)))
       \<noteq> nonWhitespace leadingStopText"
proof -
  have "map segText (segment asciiLower defaultSegmentationConfig leadingStopText) = [[0x4F60, 0x597D]]"
    by (simp add: segment_eval leadingStopText_def)
  then show ?thesis
    by (simp add: nonWhitespace_def isWhiteSpace_def leadingStopText_def)
qed

lemma matchSentences_no_boundary:
  assumes "\<forall>c \<in> set t. \<not> isHardBoundary c" and "t \<noteq> []"
  shows "matchSentences t = [t]"
proof -
  obtain c cs where t: "t = c # cs" using assms(2) by (cases t) auto
  have c: "\<not> isHardBoundary c" and cs: "\<forall>x \<in> set cs. \<not> isHardBoundary x"
    using assms(1) t by simp_all
  have tw: "takeWhile (\<lambda>x. \<not> isHardBoundary x) cs = cs"
    using cs by (simp add: takeWhile_eq_all_conv)
  have dw: "dropWhile (\<lambda>x. \<not> isHardBoundary x) cs = []"
    using cs by simp
  have "matchSentences (c # cs) = [t]"
    using c t by (simp add: Let_def tw dw)
  then show ?thesis using t by simp
qed

text \<open>
  Claim C3 says that \<open>segment(text)\<close> also ends a sentence at a soft separator that
  closes a run of ten characters or more. \<open>sentenceRegex\<close> knows the hard boundary
  characters only: a clause of ten characters, a fullwidth comma and two more characters
  comes back as one segment. (The regular expression of the streaming segmenter, which
  has a rule for the comma and the ideographic comma, finds no sentence in it either.)
\<close>

theorem segment_soft_separator_counterexample:
  "10 \<le> length (takeWhile (\<lambda>c. c \<noteq> 0xFF0C) softText)
   \<and> softText ! 10 = 0xFF0C
   \<and> map segText (segment asciiLower defaultSegmentationConfig softText) = [softText]
   \<and> sentenceMatch softText = None"
proof -
  have "sentenceMatch softText = None"
    by (simp add: sentenceMatch_def firstLineLength_def isLineTerminator_def isSentenceEnd_def
        isSoftSeparator_def softText_def)
  then show ?thesis
    by (simp add: segment_eval softText_def)
qed

lemma matchSentences_candidate:
  assumes a: "a \<noteq> []" "filter isHardBoundary a = []"
    and st: "filter (\<lambda>c. \<not> isHardBoundary c) stops = []"
    and b: "takeWhile isHardBoundary b = []"
    and sb: "stops \<noteq> [] \<or> b = []"
  shows "matchSentences (a @ stops @ b) = (a @ stops) # matchSentences b"
proof -
  obtain c cs where acs: "a = c # cs" using a(1) by (cases a) auto
  have na: "\<forall>x \<in> set a. \<not> isHardBoundary x" using a(2) by (simp add: filter_empty_conv)
  have hs: "\<forall>x \<in> set stops. isHardBoundary x" using st by (simp add: filter_empty_conv)
  have c: "\<not> isHardBoundary c" using na acs by simp
  have db: "dropWhile isHardBoundary b = b"
    using takeWhile_dropWhile_id [of isHardBoundary b] b by simp
  have tw: "takeWhile (\<lambda>x. \<not> isHardBoundary x) (a @ stops @ b) = a"
    and dw: "dropWhile (\<lambda>x. \<not> isHardBoundary x) (a @ stops @ b) = stops @ b"
  proof -
    have "stops @ b = [] \<or> isHardBoundary (hd (stops @ b))"
      using sb hs by (cases stops) auto
    then have t: "takeWhile (\<lambda>x. \<not> isHardBoundary x) (stops @ b) = []"
      by (cases "stops @ b") auto
    then have d: "dropWhile (\<lambda>x. \<not> isHardBoundary x) (stops @ b) = stops @ b"
      using takeWhile_dropWhile_id [of "\<lambda>x. \<not> isHardBoundary x" "stops @ b"] by simp
    show "takeWhile (\<lambda>x. \<not> isHardBoundary x) (a @ stops @ b) = a"
      using na t by (simp add: takeWhile_append2)
    show "dropWhile (\<lambda>x. \<not> isHardBoundary x) (a @ stops @ b) = stops @ b"
      using na d by (simp add: dropWhile_append2)
  qed
  have ts: "takeWhile isHardBoundary (stops @ b) = stops"
    using hs b by (simp add: takeWhile_append2)
  have ds: "dropWhile isHardBoundary (stops @ b) = b"
    using hs db by (simp add: dropWhile_append2)
  have "matchSentences (c # cs @ stops @ b) = (a @ stops) # matchSentences b"
    using c tw dw ts ds unfolding acs
    by (simp add: Let_def del: takeWhile.simps dropWhile.simps takeWhile_append dropWhile_append)
  then show ?thesis using acs by simp
qed

lemma trim_id: "s \<noteq> [] \<Longrightarrow> \<not> isWhiteSpace (hd s) \<Longrightarrow> \<not> isWhiteSpace (last s) \<Longrightarrow> trim s = s"
proof -
  assume s: "s \<noteq> []" and h: "\<not> isWhiteSpace (hd s)" and l: "\<not> isWhiteSpace (last s)"
  have "dropWhile isWhiteSpace s = s" using s h by (cases s) auto
  moreover have "dropWhile isWhiteSpace (rev s) = rev s"
    using s l by (cases "rev s") (auto simp: last_rev [symmetric] hd_rev)
  ultimately show ?thesis by (simp add: trim_def trimStart_def trimEnd_def)
qed

lemma splitWords_run:
  "(\<forall>i<length p. \<not> (List.member (punctuationMarks cfg) [p ! i] \<and>
        minSegmentLength cfg \<le> Suc (length cur + i))) \<Longrightarrow>
   splitWords cfg emo cur (p @ ws) = splitWords cfg emo (cur @ p) ws"
proof (induction p arbitrary: cur)
  case Nil
  then show ?case by simp
next
  case (Cons x p)
  from Cons.prems have x: "\<not> (List.member (punctuationMarks cfg) [x] \<and>
        minSegmentLength cfg \<le> Suc (length cur))"
    by fastforce
  have "\<forall>i<length p. \<not> (List.member (punctuationMarks cfg) [p ! i] \<and>
        minSegmentLength cfg \<le> Suc (length (cur @ [x]) + i))"
  proof (intro allI impI)
    fix i assume "i < length p"
    then have "Suc i < length (x # p)" by simp
    with Cons.prems have "\<not> (List.member (punctuationMarks cfg) [(x # p) ! Suc i] \<and>
        minSegmentLength cfg \<le> Suc (length cur + Suc i))" by blast
    then show "\<not> (List.member (punctuationMarks cfg) [p ! i] \<and>
        minSegmentLength cfg \<le> Suc (length (cur @ [x]) + i))" by simp
  qed
  from Cons.IH [OF this] have "splitWords cfg emo (cur @ [x]) (p @ ws) = splitWords cfg emo (cur @ x # p) ws"
    by simp
  moreover have "splitWords cfg emo cur ((x # p) @ ws) = splitWords cfg emo (cur @ [x]) (p @ ws)"
    using x by (auto simp: Let_def)
  ultimately show ?case by simp
qed

lemma segment_append:
  "matchSentences t = s # matchSentences b \<Longrightarrow> matchSentences u = [s] \<Longrightarrow>
   segment lc cfg t = segment lc cfg u @ segment lc cfg b"
  by (simp add: segment_def splitIntoSentences_def)

text \<open>
  Claim C3, amended: \<open>segment(text)\<close> ends a sentence candidate at the hard boundary
  characters only, and cuts a candidate that is too long at the configured punctuation
  marks. A candidate is a run of characters that are no hard boundary, with the run of
  hard boundary characters behind it; the segments of a text that starts with a candidate
  are the segments of the candidate followed by those of the rest. A candidate whose
  trimmed text is not empty and has at most \<open>maxSegmentLength\<close> code units is one
  segment, the trimmed text, whatever soft separators it holds. A longer candidate goes through
  \<open>splitLongSentence\<close>, which closes a piece behind the first configured punctuation
  mark that brings the piece to \<open>minSegmentLength\<close> code units or more, goes on in the
  same way behind it, and keeps a last piece without such a mark when it is not blank.
\<close>

theorem segment_boundaries:
  "(a \<noteq> [] \<and> filter isHardBoundary a = [] \<and> stops \<noteq> [] \<and>
      filter (\<lambda>c. \<not> isHardBoundary c) stops = [] \<and> takeWhile isHardBoundary b = []
      \<longrightarrow> segment lc cfg (a @ stops @ b) = segment lc cfg (a @ stops) @ segment lc cfg b)
   \<and> (a \<noteq> [] \<and> filter isHardBoundary a = [] \<and> filter (\<lambda>c. \<not> isHardBoundary c) stops = [] \<and>
      trim (a @ stops) \<noteq> [] \<and> length (trim (a @ stops)) \<le> maxSegmentLength cfg
      \<longrightarrow> map segText (segment lc cfg (a @ stops)) = [trim (a @ stops)])
   \<and> (a \<noteq> [] \<and> filter isHardBoundary a = [] \<and> filter (\<lambda>c. \<not> isHardBoundary c) stops = [] \<and>
      maxSegmentLength cfg < length (trim (a @ stops))
      \<longrightarrow> segment lc cfg (a @ stops) =
            splitLongSentence cfg (trim (a @ stops)) (analyzeEmotion lc cfg (trim (a @ stops))))
   \<and> (List.member (punctuationMarks cfg) [w] \<and> minSegmentLength cfg \<le> Suc (length p) \<and>
      (\<forall>i<length p. \<not> (List.member (punctuationMarks cfg) [p ! i] \<and> minSegmentLength cfg \<le> Suc i))
      \<longrightarrow> map segText (splitLongSentence cfg (p @ w # rest) emo) =
            (p @ [w]) # map segText (splitLongSentence cfg rest emo))
   \<and> ((\<forall>i<length s. \<not> (List.member (punctuationMarks cfg) [s ! i] \<and> minSegmentLength cfg \<le> Suc i))
      \<longrightarrow> map segText (splitLongSentence cfg s emo) = (if trim s = [] then [] else [s]))"
proof -
  have single: "matchSentences (a @ stops) = [a @ stops]"
    if "a \<noteq> []" "filter isHardBoundary a = []" "filter (\<lambda>c. \<not> isHardBoundary c) stops = []"
    using matchSentences_candidate [OF that, of "[]"] by simp
  have t1: "segment lc cfg (a @ stops @ b) = segment lc cfg (a @ stops) @ segment lc cfg b"
    if h: "a \<noteq> []" "filter isHardBoundary a = []" "stops \<noteq> []"
      "filter (\<lambda>c. \<not> isHardBoundary c) stops = []" "takeWhile isHardBoundary b = []"
  proof -
    have "matchSentences (a @ stops @ b) = (a @ stops) # matchSentences b"
      using h by (intro matchSentences_candidate) simp_all
    then show ?thesis using single [OF h(1,2,4)] by (rule segment_append)
  qed
  have t2: "map segText (segment lc cfg (a @ stops)) = [trim (a @ stops)]"
    if h: "a \<noteq> []" "filter isHardBoundary a = []" "filter (\<lambda>c. \<not> isHardBoundary c) stops = []"
      "trim (a @ stops) \<noteq> []" "length (trim (a @ stops)) \<le> maxSegmentLength cfg"
    using single [OF h(1,2,3)] h(4,5)
    by (simp add: segment_def splitIntoSentences_def Let_def mkSegment_def)
  have t3: "segment lc cfg (a @ stops) =
            splitLongSentence cfg (trim (a @ stops)) (analyzeEmotion lc cfg (trim (a @ stops)))"
    if h: "a \<noteq> []" "filter isHardBoundary a = []" "filter (\<lambda>c. \<not> isHardBoundary c) stops = []"
      "maxSegmentLength cfg < length (trim (a @ stops))"
  proof -
    from h(4) have "trim (a @ stops) \<noteq> []" by auto
    then show ?thesis using single [OF h(1,2,3)] h(4)
      by (simp add: segment_def splitIntoSentences_def Let_def)
  qed
  have t4: "map segText (splitLongSentence cfg (p @ w # rest) emo) =
            (p @ [w]) # map segText (splitLongSentence cfg rest emo)"
    if h: "List.member (punctuationMarks cfg) [w]" "minSegmentLength cfg \<le> Suc (length p)"
      "\<forall>i<length p. \<not> (List.member (punctuationMarks cfg) [p ! i] \<and> minSegmentLength cfg \<le> Suc i)"
  proof -
    have "splitWords cfg emo [] (p @ w # rest) = splitWords cfg emo ([] @ p) (w # rest)"
      using h(3) by (intro splitWords_run) simp
    then show ?thesis using h(1,2)
      by (simp add: splitLongSentence_def Let_def mkSegment_def)
  qed
  have t5: "map segText (splitLongSentence cfg s emo) = (if trim s = [] then [] else [s])"
    if h: "\<forall>i<length s. \<not> (List.member (punctuationMarks cfg) [s ! i] \<and> minSegmentLength cfg \<le> Suc i)"
  proof -
    have "splitWords cfg emo [] (s @ []) = splitWords cfg emo ([] @ s) []"
      using h by (intro splitWords_run) simp
    then show ?thesis by (simp add: splitLongSentence_def mkSegment_def)
  qed
  from t1 t2 t3 t4 t5 show ?thesis by blast
qed

theorem segment_boundaries_witness:
  "map segText (segment asciiLower defaultSegmentationConfig ([0x4F60, 0x597D] @ [0x3002] @ [0x6211])) =
     [[0x4F60, 0x597D, 0x3002], [0x6211]]
   \<and> filter isHardBoundary softText = []
   \<and> length (trim softText) \<le> maxSegmentLength defaultSegmentationConfig
   \<and> map segText (segment asciiLower defaultSegmentationConfig softText) = [softText]
   \<and> filter isHardBoundary longText = []
   \<and> maxSegmentLength defaultSegmentationConfig < length (trim longText)
   \<and> List.member (punctuationMarks defaultSegmentationConfig) [0x2C]
   \<and> \<not> List.member (punctuationMarks defaultSegmentationConfig) [0x3001]
   \<and> map segText (segment asciiLower defaultSegmentationConfig longText) =
       [replicate 10 0x61 @ [0x2C], replicate 95 0x62]"
proof -
  let ?cfg = defaultSegmentationConfig
  let ?emo = "analyzeEmotion asciiLower ?cfg longText"
  have h1: "[0x4F60, 0x597D] \<noteq> ([] :: jsstring)" "filter isHardBoundary [0x4F60, 0x597D] = []"
    "[0x3002] \<noteq> ([] :: jsstring)" "filter (\<lambda>c. \<not> isHardBoundary c) [0x3002] = []"
    "takeWhile isHardBoundary [0x6211] = []" "filter isHardBoundary [0x6211] = []"
    "filter (\<lambda>c. \<not> isHardBoundary c) ([] :: jsstring) = []" "[0x6211] \<noteq> ([] :: jsstring)"
    by (simp_all add: isHardBoundary_def)
  have tr1: "trim ([0x4F60, 0x597D] @ [0x3002]) = [0x4F60, 0x597D, 0x3002]"
    "trim ([0x6211] @ []) = [0x6211]"
    by (simp_all add: trim_def trimStart_def trimEnd_def isWhiteSpace_def)
  have mx: "maxSegmentLength ?cfg = 100" "minSegmentLength ?cfg = 10"
    by (simp_all add: defaultSegmentationConfig_def)
  have s1: "segment asciiLower ?cfg ([0x4F60, 0x597D] @ [0x3002] @ [0x6211]) =
            segment asciiLower ?cfg ([0x4F60, 0x597D] @ [0x3002]) @ segment asciiLower ?cfg [0x6211]"
    by (rule segment_boundaries [where a = "[0x4F60, 0x597D]" and stops = "[0x3002]" and b = "[0x6211]",
          THEN conjunct1, THEN mp]) (intro conjI h1)
  have s2: "map segText (segment asciiLower ?cfg ([0x4F60, 0x597D] @ [0x3002])) =
            [trim ([0x4F60, 0x597D] @ [0x3002])]"
    by (rule segment_boundaries [where a = "[0x4F60, 0x597D]" and stops = "[0x3002]",
          THEN conjunct2, THEN conjunct1, THEN mp]) (simp add: isHardBoundary_def tr1 mx del: append.simps)
  have s3: "map segText (segment asciiLower ?cfg ([0x6211] @ [])) = [trim ([0x6211] @ [])]"
    by (rule segment_boundaries [where a = "[0x6211]" and stops = "[]",
          THEN conjunct2, THEN conjunct1, THEN mp]) (simp add: isHardBoundary_def tr1 mx del: append.simps append_Nil2)
  have c1: "map segText (segment asciiLower ?cfg ([0x4F60, 0x597D] @ [0x3002] @ [0x6211])) =
     [[0x4F60, 0x597D, 0x3002], [0x6211]]"
  proof -
    have "trim [0x4F60, 0x597D, 0x3002] = [0x4F60, 0x597D, 0x3002]" "trim [0x6211] = [0x6211]"
      using tr1 by simp_all
    then show ?thesis using s1 s2 s3 by simp
  qed
  have h2: "softText \<noteq> []" "filter isHardBoundary softText = []"
    by (simp_all add: softText_def isHardBoundary_def)
  have tr2: "trim softText = softText"
    by (simp add: softText_def trim_def trimStart_def trimEnd_def isWhiteSpace_def)
  have l2: "length (trim softText) \<le> maxSegmentLength ?cfg"
    by (simp add: tr2 mx) (simp add: softText_def)
  have "map segText (segment asciiLower ?cfg (softText @ [])) = [trim (softText @ [])]"
    by (rule segment_boundaries [where a = softText and stops = "[]",
          THEN conjunct2, THEN conjunct1, THEN mp]) (use h2 l2 tr2 in simp)
  then have c2: "map segText (segment asciiLower ?cfg softText) = [softText]"
    by (simp add: tr2)
  have h3: "longText \<noteq> []" "filter isHardBoundary longText = []"
    by (simp_all add: longText_def isHardBoundary_def)
  have tr3: "trim longText = longText"
    by (rule trim_id) (simp_all add: longText_def isWhiteSpace_def)
  have l3: "maxSegmentLength ?cfg < length (trim longText)"
    by (simp add: tr3 mx) (simp add: longText_def)
  have "segment asciiLower ?cfg (longText @ []) =
            splitLongSentence ?cfg (trim (longText @ [])) (analyzeEmotion asciiLower ?cfg (trim (longText @ [])))"
    by (rule segment_boundaries [where a = longText and stops = "[]",
          THEN conjunct2, THEN conjunct2, THEN conjunct1, THEN mp]) (use h3 l3 in simp)
  then have s4: "segment asciiLower ?cfg longText = splitLongSentence ?cfg longText ?emo"
    by (simp add: tr3)
  have m: "List.member (punctuationMarks ?cfg) [0x2C]"
    by (simp add: defaultSegmentationConfig_def)
  have nm: "\<not> List.member (punctuationMarks ?cfg) [0x3001]"
    by (simp add: defaultSegmentationConfig_def)
  have n1: "\<forall>i<length (replicate 10 (0x61 :: jschar)).
      \<not> (List.member (punctuationMarks ?cfg) [replicate 10 (0x61 :: jschar) ! i] \<and>
         minSegmentLength ?cfg \<le> Suc i)"
    by (simp add: defaultSegmentationConfig_def)
  have n2: "\<forall>i<length (replicate 95 (0x62 :: jschar)).
      \<not> (List.member (punctuationMarks ?cfg) [replicate 95 (0x62 :: jschar) ! i] \<and>
         minSegmentLength ?cfg \<le> Suc i)"
    by (simp add: defaultSegmentationConfig_def)
  have mn: "minSegmentLength ?cfg \<le> Suc (length (replicate 10 (0x61 :: jschar)))"
    by (simp add: mx)
  have tr4: "trim (replicate 95 (0x62 :: jschar)) \<noteq> []"
    using trim_id [of "replicate 95 (0x62 :: jschar)"] by (simp add: isWhiteSpace_def)
  have s5: "map segText (splitLongSentence ?cfg (replicate 10 0x61 @ 0x2C # replicate 95 0x62) ?emo) =
      (replicate 10 0x61 @ [0x2C]) # map segText (splitLongSentence ?cfg (replicate 95 0x62) ?emo)"
    by (rule segment_boundaries [where w = "0x2C" and p = "replicate 10 0x61",
          THEN conjunct2, THEN conjunct2, THEN conjunct2, THEN conjunct1, THEN mp])
       (intro conjI m mn n1)
  have s6: "map segText (splitLongSentence ?cfg (replicate 95 0x62) ?emo) =
      (if trim (replicate 95 (0x62 :: jschar)) = [] then [] else [replicate 95 0x62])"
    by (rule segment_boundaries [where s = "replicate 95 0x62",
          THEN conjunct2, THEN conjunct2, THEN conjunct2, THEN conjunct2, THEN mp]) (rule n2)
  have c3: "map segText (segment asciiLower ?cfg longText) = [replicate 10 0x61 @ [0x2C], replicate 95 0x62]"
    using tr4 by (simp only: s4 s5 [folded longText_def] s6 if_False)
  from c1 h2(2) l2 c2 h3(2) l3 m nm c3 show ?thesis by (intro conjI)
qed

subsection \<open>The streaming segmenter\<close>

lemmas stream_eval = processNewContent_def newSegmenter_def extractCompleteSentences_def sentenceMatch_def
  firstLineLength_def isLineTerminator_def isSentenceEnd_def isSoftSeparator_def trimStart_def isWhiteSpace_def Let_def

text \<open>
  Claim C6 says that after \<open>processNewContent\<close> every completed sentence of the buffer
  has been returned and the buffer keeps the unterminated rest only. On a content of two
  lines the call returns the first line and the buffer keeps the second, in which the
  regular expression still finds a completed sentence.
\<close>

theorem processNewContent_keeps_second_line:
  "fst (processNewContent twoLines newSegmenter) = [[0x61, 0x3002, 0x0A]]
   \<and> sentenceBuffer (snd (processNewContent twoLines newSegmenter)) = [0x62, 0x3002, 0x63]
   \<and> sentenceMatch [0x62, 0x3002, 0x63] = Some [0x62, 0x3002]"
  by (simp add: stream_eval twoLines_def)

lemma backtrack_Some:
  "backtrack cls buf lo k = Some n \<Longrightarrow>
   lo \<le> n \<and> 0 < n \<and> n \<le> k \<and> n < length buf \<and> cls (buf ! n) \<and>
   (\<forall>m. n < m \<and> m \<le> k \<and> m < length buf \<longrightarrow> \<not> cls (buf ! m))"
proof (induction k)
  case 0
  then show ?case by simp
next
  case (Suc k)
  show ?case
  proof (cases "Suc k < length buf \<and> cls (buf ! Suc k)")
    case True
    with Suc.prems show ?thesis by (auto split: if_splits)
  next
    case False
    with Suc.prems have b: "backtrack cls buf lo k = Some n" and lo: "\<not> Suc k < lo"
      by (auto split: if_splits)
    from Suc.IH [OF b] False show ?thesis
      by (auto simp: le_Suc_eq)
  qed
qed

lemma backtrack_None:
  "backtrack cls buf lo k = None \<Longrightarrow>
   (\<forall>m. lo \<le> m \<and> 0 < m \<and> m \<le> k \<and> m < length buf \<longrightarrow> \<not> cls (buf ! m))"
proof (induction k)
  case 0
  then show ?case by simp
next
  case (Suc k)
  show ?case
  proof (cases "Suc k < lo")
    case True
    then show ?thesis by auto
  next
    case False
    with Suc.prems have b: "backtrack cls buf lo k = None"
      and n: "\<not> (Suc k < length buf \<and> cls (buf ! Suc k))"
      by (auto split: if_splits)
    from Suc.IH [OF b] n show ?thesis
      by (auto simp: le_Suc_eq)
  qed
qed

lemma sentenceMatch_Some:
  assumes "sentenceMatch buf = Some s"
  shows "s \<noteq> [] \<and> prefix s buf \<and> (isSentenceEnd (last s) \<or> isSoftSeparator (last s))
         \<and> length s \<le> Suc (firstLineLength buf)
         \<and> (\<forall>m. length s \<le> m \<and> m \<le> firstLineLength buf \<and> m < length buf \<longrightarrow>
                \<not> isSentenceEnd (buf ! m))"
proof (cases "backtrack isSentenceEnd buf 1 (firstLineLength buf)")
  case (Some n)
  with assms have s: "s = take (Suc n) buf" by (simp add: sentenceMatch_def)
  from backtrack_Some [OF Some] have n: "n < length buf" "isSentenceEnd (buf ! n)" "n \<le> firstLineLength buf"
    and mx: "\<forall>m. n < m \<and> m \<le> firstLineLength buf \<and> m < length buf \<longrightarrow> \<not> isSentenceEnd (buf ! m)"
    by simp_all
  have len: "length s = Suc n" using s n(1) by simp
  have "last s = buf ! n" using s n(1) by (simp add: take_Suc_conv_app_nth)
  moreover have "s \<noteq> []" using len by auto
  moreover have "prefix s buf" using s by (simp add: take_is_prefix)
  ultimately show ?thesis using n mx len by auto
next
  case None
  from backtrack_None [OF None] have no: "\<forall>m. 0 < m \<and> m \<le> firstLineLength buf \<and> m < length buf \<longrightarrow> \<not> isSentenceEnd (buf ! m)"
    by auto
  from None assms obtain n where b: "backtrack isSoftSeparator buf 10 (firstLineLength buf) = Some n"
    and s: "s = take (Suc n) buf"
    by (auto simp: sentenceMatch_def split: option.splits)
  from backtrack_Some [OF b] have n: "n < length buf" "isSoftSeparator (buf ! n)" "n \<le> firstLineLength buf"
    by simp_all
  have len: "length s = Suc n" using s n(1) by simp
  have "last s = buf ! n" using s n(1) by (simp add: take_Suc_conv_app_nth)
  moreover have "s \<noteq> []" using len by auto
  moreover have "prefix s buf" using s by (simp add: take_is_prefix)
  ultimately show ?thesis using n no len by auto
qed

lemma sentenceMatch_None:
  assumes "sentenceMatch buf = None"
  shows "\<forall>m. 0 < m \<and> m \<le> firstLineLength buf \<and> m < length buf \<longrightarrow> \<not> isSentenceEnd (buf ! m)"
proof -
  from assms have "backtrack isSentenceEnd buf 1 (firstLineLength buf) = None"
    by (auto simp: sentenceMatch_def Let_def split: option.splits)
  from backtrack_None [OF this] show ?thesis by auto
qed

lemma backtrack_sentence_end:
  "backtrack isSentenceEnd buf 1 (firstLineLength buf) = Some n \<Longrightarrow>
   sentenceEndAt buf n \<and> (\<forall>m. n < m \<longrightarrow> \<not> sentenceEndAt buf m)"
  using backtrack_Some [of isSentenceEnd buf 1 "firstLineLength buf" n]
  by (auto simp: sentenceEndAt_def)

lemma backtrack_no_sentence_end:
  "backtrack isSentenceEnd buf 1 (firstLineLength buf) = None \<Longrightarrow> \<not> (\<exists>n. sentenceEndAt buf n)"
  using backtrack_None [of isSentenceEnd buf 1 "firstLineLength buf"]
  by (auto simp: sentenceEndAt_def)

lemma backtrack_soft_separator:
  "backtrack isSoftSeparator buf 10 (firstLineLength buf) = Some n \<Longrightarrow>
   softSeparatorAt buf n \<and> (\<forall>m. n < m \<longrightarrow> \<not> softSeparatorAt buf m)"
  using backtrack_Some [of isSoftSeparator buf 10 "firstLineLength buf" n]
  by (auto simp: softSeparatorAt_def)

lemma backtrack_no_soft_separator:
  "backtrack isSoftSeparator buf 10 (firstLineLength buf) = None \<Longrightarrow> \<not> (\<exists>n. softSeparatorAt buf n)"
  using backtrack_None [of isSoftSeparator buf 10 "firstLineLength buf"]
  by (auto simp: softSeparatorAt_def)

text \<open>
  Claim C6, amended: a call of \<open>processNewContent\<close> with grown content, on a buffer
  (the old buffer with the new part of the content appended) that does not start with a
  line terminator, returns at most one string, the match of the regular expression at
  the start of the buffer. When the first line of the buffer, with the line terminator
  that ends it, holds a sentence end behind at least one character, the string is the
  prefix of the buffer up to the last such sentence end. When it holds none but holds a
  soft separator behind at least ten characters, the string is the prefix up to the last
  such separator. Otherwise nothing is returned. The buffer keeps what is behind the
  returned prefix, with leading whitespace removed, and the whole buffer when nothing is
  returned.
\<close>

theorem processNewContent_returns_first_match:
  assumes "length (lastProcessedContent st) < length content"
    and "buf = sentenceBuffer st @ drop (length (lastProcessedContent st)) content"
    and "0 < firstLineLength buf"
    and "processNewContent content st = (out, st')"
  shows "lastProcessedContent st' = content
     \<and> ((\<exists>n. sentenceEndAt buf n) \<longrightarrow>
          (\<exists>n. sentenceEndAt buf n \<and> (\<forall>m. n < m \<longrightarrow> \<not> sentenceEndAt buf m) \<and>
               out = [take (Suc n) buf] \<and>
               sentenceBuffer st' = trimStart (drop (Suc n) buf)))
     \<and> (\<not> (\<exists>n. sentenceEndAt buf n) \<and> (\<exists>n. softSeparatorAt buf n) \<longrightarrow>
          (\<exists>n. softSeparatorAt buf n \<and> (\<forall>m. n < m \<longrightarrow> \<not> softSeparatorAt buf m) \<and>
               out = [take (Suc n) buf] \<and>
               sentenceBuffer st' = trimStart (drop (Suc n) buf)))
     \<and> (\<not> (\<exists>n. sentenceEndAt buf n) \<and> \<not> (\<exists>n. softSeparatorAt buf n) \<longrightarrow>
          out = [] \<and> sentenceBuffer st' = buf)"
proof -
  have ne: "content \<noteq> lastProcessedContent st" using assms(1) by auto
  have nz: "drop (length (lastProcessedContent st)) content \<noteq> []" using assms(1) by simp
  have run: "extractCompleteSentences (st\<lparr>sentenceBuffer := buf, lastProcessedContent := content\<rparr>) = (out, st')"
    using assms ne nz by (simp add: processNewContent_def Let_def)
  show ?thesis
  proof (cases "backtrack isSentenceEnd buf 1 (firstLineLength buf)")
    case (Some n)
    then have m: "sentenceMatch buf = Some (take (Suc n) buf)"
      by (simp add: sentenceMatch_def Let_def)
    from backtrack_sentence_end [OF Some] have n: "sentenceEndAt buf n"
      "\<forall>m. n < m \<longrightarrow> \<not> sentenceEndAt buf m" by simp_all
    then have len: "length (take (Suc n) buf) = Suc n" by (simp add: sentenceEndAt_def)
    from run m len have "out = [take (Suc n) buf]" "lastProcessedContent st' = content"
      "sentenceBuffer st' = trimStart (drop (Suc n) buf)"
      by (auto simp: extractCompleteSentences_def)
    with n show ?thesis by blast
  next
    case None
    note no_end = backtrack_no_sentence_end [OF None]
    show ?thesis
    proof (cases "backtrack isSoftSeparator buf 10 (firstLineLength buf)")
      case (Some n)
      with None have m: "sentenceMatch buf = Some (take (Suc n) buf)"
        by (simp add: sentenceMatch_def Let_def)
      from backtrack_soft_separator [OF Some] have n: "softSeparatorAt buf n"
        "\<forall>m. n < m \<longrightarrow> \<not> softSeparatorAt buf m" by simp_all
      then have len: "length (take (Suc n) buf) = Suc n" by (simp add: softSeparatorAt_def)
      from run m len have "out = [take (Suc n) buf]" "lastProcessedContent st' = content"
        "sentenceBuffer st' = trimStart (drop (Suc n) buf)"
        by (auto simp: extractCompleteSentences_def)
      with n no_end show ?thesis by blast
    next
      case None2: None
      note no_soft = backtrack_no_soft_separator [OF None2]
      from None None2 have m: "sentenceMatch buf = None"
        by (simp add: sentenceMatch_def Let_def)
      with run have "out = []" "lastProcessedContent st' = content" "sentenceBuffer st' = buf"
        by (auto simp: extractCompleteSentences_def)
      with no_end no_soft show ?thesis by blast
    qed
  qed
qed

lemma first_step:
  "length (lastProcessedContent newSegmenter) < length content \<longleftrightarrow> content \<noteq> []"
  "sentenceBuffer newSegmenter @ drop (length (lastProcessedContent newSegmenter)) content = content"
  by (simp_all add: newSegmenter_def)

theorem processNewContent_returns_first_match_witness:
  "0 < firstLineLength twoLines \<and> sentenceEndAt twoLines 2
   \<and> processNewContent twoLines newSegmenter =
       ([[0x61, 0x3002, 0x0A]],
        \<lparr> sentenceBuffer = [0x62, 0x3002, 0x63], lastProcessedContent = twoLines \<rparr>)
   \<and> 0 < firstLineLength commaText \<and> \<not> (\<exists>n. sentenceEndAt commaText n)
   \<and> softSeparatorAt commaText 10
   \<and> processNewContent commaText newSegmenter =
       ([[0x30, 0x31, 0x32, 0x33, 0x34, 0x35, 0x36, 0x37, 0x38, 0x39, 0x2C]],
        \<lparr> sentenceBuffer = [0x61, 0x62], lastProcessedContent = commaText \<rparr>)
   \<and> 0 < firstLineLength plainText \<and> \<not> (\<exists>n. softSeparatorAt plainText n)
   \<and> processNewContent plainText newSegmenter =
       ([], \<lparr> sentenceBuffer = plainText, lastProcessedContent = plainText \<rparr>)"
proof -
  have g: "length (lastProcessedContent newSegmenter) < length twoLines"
    "length (lastProcessedContent newSegmenter) < length commaText"
    "length (lastProcessedContent newSegmenter) < length plainText"
    by (simp_all add: newSegmenter_def twoLines_def commaText_def plainText_def)
  have k: "firstLineLength twoLines = 2" "firstLineLength commaText = 13" "firstLineLength plainText = 3"
    by (simp_all add: firstLineLength_def isLineTerminator_def twoLines_def commaText_def plainText_def)
  have e1: "sentenceEndAt twoLines 2"
    by (simp add: sentenceEndAt_def k) (simp add: twoLines_def isSentenceEnd_def)
  have e2: "\<not> (\<exists>n. sentenceEndAt commaText n)"
    by (rule backtrack_no_sentence_end)
      (simp add: firstLineLength_def isLineTerminator_def commaText_def isSentenceEnd_def)
  have e3: "softSeparatorAt commaText 10"
    by (simp add: softSeparatorAt_def k) (simp add: commaText_def isSoftSeparator_def)
  have e4: "\<not> (\<exists>n. sentenceEndAt plainText n)"
    by (rule backtrack_no_sentence_end)
      (simp add: firstLineLength_def isLineTerminator_def plainText_def isSentenceEnd_def)
  have e5: "\<not> (\<exists>n. softSeparatorAt plainText n)"
    by (rule backtrack_no_soft_separator)
      (simp add: firstLineLength_def isLineTerminator_def plainText_def isSoftSeparator_def)
  have r1: "processNewContent twoLines newSegmenter =
       ([[0x61, 0x3002, 0x0A]],
        \<lparr> sentenceBuffer = [0x62, 0x3002, 0x63], lastProcessedContent = twoLines \<rparr>)"
    by (simp add: stream_eval twoLines_def)
  have r2: "processNewContent commaText newSegmenter =
       ([[0x30, 0x31, 0x32, 0x33, 0x34, 0x35, 0x36, 0x37, 0x38, 0x39, 0x2C]],
        \<lparr> sentenceBuffer = [0x61, 0x62], lastProcessedContent = commaText \<rparr>)"
    by (simp add: stream_eval commaText_def)
  obtain out st' where r3: "processNewContent plainText newSegmenter = (out, st')"
    by (cases "processNewContent plainText newSegmenter")
  from processNewContent_returns_first_match [OF g(3) first_step(2) [symmetric] _ r3] k(3) e4 e5
  have "out = []" "sentenceBuffer st' = plainText" "lastProcessedContent st' = plainText"
    by simp_all
  with r3 have r3': "processNewContent plainText newSegmenter =
       ([], \<lparr> sentenceBuffer = plainText, lastProcessedContent = plainText \<rparr>)"
    by (cases st') simp
  from k e1 r1 e2 e3 r2 e5 r3' show ?thesis by simp
qed

subsection \<open>The loop of the controller\<close>

lemma trigger_frame:
  "triggerSeamlessTransition rs c = (r, c') \<Longrightarrow>
   config c' = config c \<and> modules c' = modules c \<and> timers c' = timers c \<and>
   errorListeners c' = errorListeners c \<and> history c' = history c"
  by (auto simp: triggerSeamlessTransition_def emit_def setState_def Let_def
           split: if_splits option.splits sum.splits)

lemma trigger_emitted:
  "triggerSeamlessTransition rs c = (r, c') \<Longrightarrow>
   \<exists>evs. emitted c' = emitted c @ evs \<and> (\<forall>ev \<in> set evs. \<not> isErrorEvent ev)"
  by (auto simp: triggerSeamlessTransition_def emit_def setState_def Let_def
           split: if_splits option.splits sum.splits)

lemma processSegments_frame:
  "processSegments draws i segs c = (r, c') \<Longrightarrow>
   config c' = config c \<and> modules c' = modules c \<and> timers c' = timers c \<and>
   errorListeners c' = errorListeners c"
proof (induction segs arbitrary: i c)
  case Nil
  then show ?case by simp
next
  case (Cons seg segs)
  show ?case
  proof (cases "generateRenderStream (draws i) seg c")
    case (Inl e)
    with Cons.prems show ?thesis by simp
  next
    case (Inr rs)
    obtain r1 c1 where t: "triggerSeamlessTransition rs (c\<lparr>history := addToHistory rs (history c)\<rparr>) = (r1, c1)"
      by (cases "triggerSeamlessTransition rs (c\<lparr>history := addToHistory rs (history c)\<rparr>)")
    from trigger_frame [OF t] have f: "config c1 = config c" "modules c1 = modules c"
      "timers c1 = timers c" "errorListeners c1 = errorListeners c"
      by simp_all
    show ?thesis
    proof (cases r1)
      case (Inl e)
      with Cons.prems Inr t f show ?thesis by (simp add: Let_def)
    next
      case (Inr u)
      with Cons.prems \<open>generateRenderStream (draws i) seg c = Inr rs\<close> t
      have "processSegments draws (Suc i) segs c1 = (r, c')" by (simp add: Let_def)
      from Cons.IH [OF this] f show ?thesis by simp
    qed
  qed
qed

lemma processSegments_emitted:
  "processSegments draws i segs c = (r, c') \<Longrightarrow>
   \<exists>evs. emitted c' = emitted c @ evs \<and> (\<forall>ev \<in> set evs. \<not> isErrorEvent ev)"
proof (induction segs arbitrary: i c)
  case Nil
  then show ?case by simp
next
  case (Cons seg segs)
  show ?case
  proof (cases "generateRenderStream (draws i) seg c")
    case (Inl e)
    with Cons.prems show ?thesis by simp
  next
    case (Inr rs)
    obtain r1 c1 where t: "triggerSeamlessTransition rs (c\<lparr>history := addToHistory rs (history c)\<rparr>) = (r1, c1)"
      by (cases "triggerSeamlessTransition rs (c\<lparr>history := addToHistory rs (history c)\<rparr>)")
    from trigger_emitted [OF t] obtain evs1 where
      e1: "emitted c1 = emitted c @ evs1" "\<forall>ev \<in> set evs1. \<not> isErrorEvent ev"
      by auto
    show ?thesis
    proof (cases r1)
      case (Inl e)
      with Cons.prems Inr t e1 show ?thesis by (auto simp add: Let_def)
    next
      case (Inr u)
      with Cons.prems \<open>generateRenderStream (draws i) seg c = Inr rs\<close> t
      have "processSegments draws (Suc i) segs c1 = (r, c')" by (simp add: Let_def)
      from Cons.IH [OF this] obtain evs2 where
        "emitted c' = emitted c1 @ evs2" "\<forall>ev \<in> set evs2. \<not> isErrorEvent ev" by auto
      with e1 have "emitted c' = emitted c @ (evs1 @ evs2) \<and> (\<forall>ev \<in> set (evs1 @ evs2). \<not> isErrorEvent ev)"
        by auto
      then show ?thesis by blast
    qed
  qed
qed

lemma processSegments_append:
  "processSegments draws i (xs @ ys) c =
     (case processSegments draws i xs c of
        (Inl e, c') \<Rightarrow> (Inl e, c')
      | (Inr u, c') \<Rightarrow> processSegments draws (i + length xs) ys c')"
proof (induction xs arbitrary: i c)
  case Nil
  then show ?case by simp
next
  case (Cons x xs)
  show ?case
    by (simp add: Cons.IH Let_def split: sum.splits prod.splits)
qed


lemma readyStreams_map [simp]: "readyStreams (map RenderStreamReady rss) = rss"
  by (induction rss) simp_all

lemma readyStreams_append [simp]: "readyStreams (xs @ ys) = readyStreams xs @ readyStreams ys"
  by (induction xs rule: readyStreams.induct) simp_all

subsection \<open>The generator\<close>

text \<open>
  Claim C8. Two calls of \<open>generate\<close> with the same segment and the same history, whatever
  each of them draws from the clock and the random source, agree on expression, camera,
  scene and background. Of the five channels only motion depends on a draw.
\<close>

theorem generate_channels_deterministic:
  "expression (generate lc cfg en1 seg h) = expression (generate lc cfg en2 seg h)
   \<and> camera (generate lc cfg en1 seg h) = camera (generate lc cfg en2 seg h)
   \<and> scene (generate lc cfg en1 seg h) = scene (generate lc cfg en2 seg h)
   \<and> background (generate lc cfg en1 seg h) = background (generate lc cfg en2 seg h)"
  by (simp add: generate_def)

text \<open>The motion channel does depend on the draw.\<close>

lemma generate_motion_varies:
  "motion (generate asciiLower defaultGenerationConfig (exampleDraws 0) neutralSegment (newHistory 50))
   \<noteq> motion (generate asciiLower defaultGenerationConfig (exampleDraws 1) neutralSegment (newHistory 50))"
  by (simp add: generate_def mapEmotionToMotion_def pickMotion_def getProperty_def
      emotionOrNeutral_def truthyString_def
      neutralSegment_def defaultGenerationConfig_def exampleDraws_def ascii_def)

lemma last_sliceLast: "xs \<noteq> [] \<Longrightarrow> sliceLast (Suc n) xs \<noteq> [] \<and> sliceLast (Suc n) xs ! (length (sliceLast (Suc n) xs) - 1) = last xs"
proof -
  assume ne: "xs \<noteq> []"
  then have l: "length xs - Suc n < length xs" by (cases xs) simp_all
  then have ne': "drop (length xs - Suc n) xs \<noteq> []" by simp
  have "last (drop (length xs - Suc n) xs) = last xs" using l by (rule last_drop)
  then show ?thesis using ne' by (simp add: sliceLast_def last_conv_nth)
qed

text \<open>
  Claim C7. The camera of \<open>generate\<close>: close-up tracking for an emphasised segment;
  otherwise front tracking for the emotions surprised and fear; otherwise back tracking
  for sad and cry; otherwise the camera of the most recent history entry when there is
  one and its camera is set and is not the mode "none"; otherwise the configured default.
  In particular a neutral segment without emphasis, after a history of two entries with
  the same camera \<open>x\<close> other than "none", gets the camera \<open>x\<close>.
\<close>

theorem camera_priority:
  "camera (generate lc cfg en seg h) =
     Some (if truthyBool (emphasis seg) then CameraCloseUp
           else if emotion seg = Some (ascii ''surprised'') \<or> emotion seg = Some (ascii ''fear'')
           then CameraFront
           else if emotion seg = Some (ascii ''sad'') \<or> emotion seg = Some (ascii ''cry'')
           then CameraBack
           else if streams h = [] then defaultCamera cfg
           else case camera (last (streams h)) of
                  None \<Rightarrow> defaultCamera cfg
                | Some CameraNone \<Rightarrow> defaultCamera cfg
                | Some x \<Rightarrow> x)
   \<and> (\<forall>a b x. x \<noteq> CameraNone \<longrightarrow> \<not> truthyBool (emphasis seg) \<longrightarrow>
         emotion seg = Some (ascii ''neutral'') \<longrightarrow>
         streams h = [a\<lparr>camera := Some x\<rparr>, b\<lparr>camera := Some x\<rparr>] \<longrightarrow>
         camera (generate lc cfg en seg h) = Some x)"
proof -
  have prio: "camera (generate lc cfg en seg h) =
     Some (if truthyBool (emphasis seg) then CameraCloseUp
           else if emotion seg = Some (ascii ''surprised'') \<or> emotion seg = Some (ascii ''fear'')
           then CameraFront
           else if emotion seg = Some (ascii ''sad'') \<or> emotion seg = Some (ascii ''cry'')
           then CameraBack
           else if streams h = [] then defaultCamera cfg
           else case camera (last (streams h)) of
                  None \<Rightarrow> defaultCamera cfg
                | Some CameraNone \<Rightarrow> defaultCamera cfg
                | Some x \<Rightarrow> x)"
  proof (cases "streams h = []")
    case True
    then show ?thesis by (simp add: generate_def determineCameraMode_def sliceLast_def)
  next
    case False
    from last_sliceLast [OF this, of 2] show ?thesis using False
      by (simp add: generate_def determineCameraMode_def Let_def numeral_3_eq_3
               split: option.splits CameraMode.splits)
  qed
  have neutral: "ascii ''neutral'' \<noteq> ascii ''surprised''" "ascii ''neutral'' \<noteq> ascii ''fear''"
    "ascii ''neutral'' \<noteq> ascii ''sad''" "ascii ''neutral'' \<noteq> ascii ''cry''"
    by (simp_all add: ascii_def)
  show ?thesis
    apply (rule conjI [OF prio])
    apply (intro allI impI)
    apply (simp only: prio)
    apply (simp add: neutral split: CameraMode.splits)
    done
qed

theorem camera_priority_witness:
  "CameraBack \<noteq> CameraNone \<and> \<not> truthyBool (emphasis neutralSegment)
   \<and> emotion neutralSegment = Some (ascii ''neutral'')
   \<and> camera (generate asciiLower defaultGenerationConfig (exampleDraws 0) neutralSegment
        ((newHistory 50)\<lparr>streams := [backStream 1, backStream 2]\<rparr>)) = Some CameraBack
   \<and> defaultCamera defaultGenerationConfig = CameraSmart"
proof -
  have s: "streams ((newHistory 50)\<lparr>streams := [backStream 1, backStream 2]\<rparr>) =
           [(backStream 1)\<lparr>camera := Some CameraBack\<rparr>, (backStream 2)\<lparr>camera := Some CameraBack\<rparr>]"
    by (simp add: backStream_def)
  have e: "\<not> truthyBool (emphasis neutralSegment)" "emotion neutralSegment = Some (ascii ''neutral'')"
    by (simp_all add: neutralSegment_def truthyBool_def)
  from camera_priority [of asciiLower defaultGenerationConfig "exampleDraws 0" neutralSegment
        "(newHistory 50)\<lparr>streams := [backStream 1, backStream 2]\<rparr>"]
  have "camera (generate asciiLower defaultGenerationConfig (exampleDraws 0) neutralSegment
        ((newHistory 50)\<lparr>streams := [backStream 1, backStream 2]\<rparr>)) = Some CameraBack"
    using s e by blast
  then show ?thesis using e by (simp add: defaultGenerationConfig_def)
qed

subsection \<open>One call of the controller\<close>

lemma newEvents_append [simp]: "emitted c' = emitted c @ evs \<Longrightarrow> newEvents c c' = evs"
  by (simp add: newEvents_def)

lemma tryBlock_emitted:
  assumes "tryBlock draws t c = (r, c2)"
  shows "\<exists>evs. emitted c2 = emitted c @ StateChanged (state c) PROCESSING # AiResponseReceived t # evs
               \<and> (\<forall>ev \<in> set evs. \<not> isErrorEvent ev)"
proof -
  define c1 where "c1 = emit (AiResponseReceived t) (setState PROCESSING c)"
  have e1: "emitted c1 = emitted c @ [StateChanged (state c) PROCESSING, AiResponseReceived t]"
    by (simp add: c1_def emit_def setState_def Let_def)
  show ?thesis
  proof (cases "segmentText t c1")
    case (Inl e)
    with assms have "c2 = c1" by (simp add: tryBlock_def c1_def Let_def)
    with e1 show ?thesis by simp
  next
    case (Inr segs)
    obtain r' c' where p: "processSegments draws 0 segs c1 = (r', c')"
      by (cases "processSegments draws 0 segs c1")
    with assms Inr have "c2 = c'"
      by (auto simp: tryBlock_def c1_def [symmetric] Let_def split: sum.splits)
    with processSegments_emitted [OF p] e1 show ?thesis by auto
  qed
qed

lemma tryBlock_frame:
  assumes "tryBlock draws t c = (r, c2)"
  shows "config c2 = config c \<and> modules c2 = modules c \<and> timers c2 = timers c \<and>
         errorListeners c2 = errorListeners c"
proof -
  define c1 where "c1 = emit (AiResponseReceived t) (setState PROCESSING c)"
  have f1: "config c1 = config c" "modules c1 = modules c" "timers c1 = timers c"
    "errorListeners c1 = errorListeners c"
    by (simp_all add: c1_def emit_def setState_def Let_def)
  show ?thesis
  proof (cases "segmentText t c1")
    case (Inl e)
    with assms have "c2 = c1" by (simp add: tryBlock_def c1_def Let_def)
    with f1 show ?thesis by simp
  next
    case (Inr segs)
    obtain r' c' where p: "processSegments draws 0 segs c1 = (r', c')"
      by (cases "processSegments draws 0 segs c1")
    with assms Inr have "c2 = c'"
      by (auto simp: tryBlock_def c1_def [symmetric] Let_def split: sum.splits)
    with processSegments_frame [OF p] f1 show ?thesis by simp
  qed
qed

lemma failing_transition_loop:
  assumes en: "enableSeamlessTransition (config c1)"
    and tm: "transitionModule (modules c1) = Some tm"
    and pre: "processSegments draws 0 pre c1 = (Inr (), c2)"
    and gen: "generateRenderStream (draws (length pre)) seg c2 = Inr rs"
    and thr: "tm rs (addToHistory rs (history c2)) = Inl e"
  shows "processSegments draws 0 (pre @ seg # post) c1 =
           (Inl e, c2\<lparr>history := addToHistory rs (history c2), state := TRANSITIONING,
                      emitted := emitted c2 @ [StateChanged (state c2) TRANSITIONING]\<rparr>)"
proof -
  from processSegments_frame [OF pre] en tm
  have f: "enableSeamlessTransition (config c2)" "transitionModule (modules c2) = Some tm"
    by simp_all
  have "triggerSeamlessTransition rs (c2\<lparr>history := addToHistory rs (history c2)\<rparr>) =
          (Inl e, c2\<lparr>history := addToHistory rs (history c2), state := TRANSITIONING,
                      emitted := emitted c2 @ [StateChanged (state c2) TRANSITIONING]\<rparr>)"
    using f thr by (simp add: triggerSeamlessTransition_def setState_def emit_def Let_def)
  then show ?thesis
    using pre gen by (simp add: processSegments_append Let_def)
qed

lemma failing_transition_try:
  assumes en: "enableSeamlessTransition (config c)"
    and tm: "transitionModule (modules c) = Some tm"
    and seg: "segmentText t (emit (AiResponseReceived t) (setState PROCESSING c)) = Inr (pre @ seg # post)"
    and pre: "processSegments draws 0 pre (emit (AiResponseReceived t) (setState PROCESSING c)) = (Inr (), c2)"
    and gen: "generateRenderStream (draws (length pre)) seg c2 = Inr rs"
    and thr: "tm rs (addToHistory rs (history c2)) = Inl e"
  shows "tryBlock draws t c =
          (Inl e, c2\<lparr>history := addToHistory rs (history c2), state := TRANSITIONING,
                      emitted := emitted c2 @ [StateChanged (state c2) TRANSITIONING]\<rparr>)"
    and "errorListeners c2 = errorListeners c"
    and "timers c2 = timers c"
proof -
  define c1 where "c1 = emit (AiResponseReceived t) (setState PROCESSING c)"
  have f1: "enableSeamlessTransition (config c1)" "transitionModule (modules c1) = Some tm"
    "errorListeners c1 = errorListeners c" "timers c1 = timers c"
    using en tm by (simp_all add: c1_def emit_def setState_def Let_def)
  from failing_transition_loop [OF f1(1,2) pre [folded c1_def] gen thr, of post]
  show "tryBlock draws t c =
          (Inl e, c2\<lparr>history := addToHistory rs (history c2), state := TRANSITIONING,
                      emitted := emitted c2 @ [StateChanged (state c2) TRANSITIONING]\<rparr>)"
    using seg by (simp add: tryBlock_def c1_def [symmetric] Let_def)
  from processSegments_frame [OF pre [folded c1_def]] f1
  show "errorListeners c2 = errorListeners c" "timers c2 = timers c" by simp_all
qed

lemma failing_transition_run:
  assumes ls: "0 < errorListeners c"
    and en: "enableSeamlessTransition (config c)"
    and tm: "transitionModule (modules c) = Some tm"
    and seg: "segmentText t (emit (AiResponseReceived t) (setState PROCESSING c)) = Inr (pre @ seg # post)"
    and pre: "processSegments draws 0 pre (emit (AiResponseReceived t) (setState PROCESSING c)) = (Inr (), c2)"
    and gen: "generateRenderStream (draws (length pre)) seg c2 = Inr rs"
    and thr: "tm rs (addToHistory rs (history c2)) = Inl e"
  shows "processAIResponse draws t c =
           (Inl e, c2\<lparr>history := addToHistory rs (history c2), state := ERROR,
                      emitted := emitted c2 @
                        [StateChanged (state c2) TRANSITIONING, StateChanged TRANSITIONING ERROR,
                         ErrorEvent e (ascii ''processAIResponse'')],
                      timers := timers c2 @ [5000]\<rparr>)"
  using failing_transition_try [OF en tm seg pre gen thr] ls
  by (simp add: processAIResponse_def catchBlock_def setState_def emit_def Let_def)

lemma failing_transition_unheard:
  assumes ls: "errorListeners c = 0"
    and en: "enableSeamlessTransition (config c)"
    and tm: "transitionModule (modules c) = Some tm"
    and seg: "segmentText t (emit (AiResponseReceived t) (setState PROCESSING c)) = Inr (pre @ seg # post)"
    and pre: "processSegments draws 0 pre (emit (AiResponseReceived t) (setState PROCESSING c)) = (Inr (), c2)"
    and gen: "generateRenderStream (draws (length pre)) seg c2 = Inr rs"
    and thr: "tm rs (addToHistory rs (history c2)) = Inl e"
  shows "processAIResponse draws t c =
           (Inl (UnhandledError e (ascii ''processAIResponse'')),
            c2\<lparr>history := addToHistory rs (history c2), state := ERROR,
               emitted := emitted c2 @
                 [StateChanged (state c2) TRANSITIONING, StateChanged TRANSITIONING ERROR]\<rparr>)"
  using failing_transition_try [OF en tm seg pre gen thr] ls
  by (simp add: processAIResponse_def catchBlock_def setState_def emit_def Let_def)

text \<open>
  Claim C2, amended. A listener for the error event is attached, seamless transitions
  are enabled and a transition module is registered; the segments before \<open>seg\<close> have
  gone through the loop, \<open>rs\<close> is the instruction generated for \<open>seg\<close>, and the
  transition of \<open>rs\<close> throws \<open>e\<close>. Then the call rethrows \<open>e\<close>; the state is
  \<open>ERROR\<close>; since the instruction was generated the controller has emitted exactly the
  entry into \<open>TRANSITIONING\<close>, the change to \<open>ERROR\<close> and the error event, so no
  \<open>renderStreamReady\<close> for \<open>rs\<close>; the error event is the only one of the call and
  its context is the fixed string \<open>processAIResponse\<close>; the instruction stays in the
  history.
\<close>

theorem transition_failure:
  assumes "0 < errorListeners c"
    and "enableSeamlessTransition (config c)"
    and "transitionModule (modules c) = Some tm"
    and "segmentText t (emit (AiResponseReceived t) (setState PROCESSING c)) = Inr (pre @ seg # post)"
    and "processSegments draws 0 pre (emit (AiResponseReceived t) (setState PROCESSING c)) = (Inr (), c2)"
    and "generateRenderStream (draws (length pre)) seg c2 = Inr rs"
    and "tm rs (addToHistory rs (history c2)) = Inl e"
  shows "fst (processAIResponse draws t c) = Inl e
     \<and> state (snd (processAIResponse draws t c)) = ERROR
     \<and> emitted (snd (processAIResponse draws t c)) =
         emitted c2 @ [StateChanged (state c2) TRANSITIONING, StateChanged TRANSITIONING ERROR,
                       ErrorEvent e (ascii ''processAIResponse'')]
     \<and> filter isErrorEvent (newEvents c (snd (processAIResponse draws t c))) =
         [ErrorEvent e (ascii ''processAIResponse'')]
     \<and> history (snd (processAIResponse draws t c)) = addToHistory rs (history c2)"
proof -
  define c1 where "c1 = emit (AiResponseReceived t) (setState PROCESSING c)"
  have e1: "emitted c1 = emitted c @ [StateChanged (state c) PROCESSING, AiResponseReceived t]"
    by (simp add: c1_def emit_def setState_def Let_def)
  from processSegments_emitted [OF assms(5) [folded c1_def]] obtain evs where
    evs: "emitted c2 = emitted c1 @ evs" "\<forall>ev \<in> set evs. \<not> isErrorEvent ev" by auto
  have run: "processAIResponse draws t c =
           (Inl e, c2\<lparr>history := addToHistory rs (history c2), state := ERROR,
                      emitted := emitted c2 @
                        [StateChanged (state c2) TRANSITIONING, StateChanged TRANSITIONING ERROR,
                         ErrorEvent e (ascii ''processAIResponse'')],
                      timers := timers c2 @ [5000]\<rparr>)"
    using assms by (rule failing_transition_run)
  have "filter isErrorEvent evs = []" using evs(2) by (simp add: filter_empty_conv)
  then have "filter isErrorEvent (newEvents c (snd (processAIResponse draws t c))) =
         [ErrorEvent e (ascii ''processAIResponse'')]"
    by (simp add: run newEvents_def evs(1) e1)
  then show ?thesis by (simp add: run)
qed

lemma catchBlock_heard:
  "0 < errorListeners c \<Longrightarrow>
   fst (catchBlock e c) = Inl e \<and> state (snd (catchBlock e c)) = ERROR
   \<and> timers (snd (catchBlock e c)) = timers c @ [5000]"
  by (simp add: catchBlock_def setState_def emit_def Let_def)

lemma catchBlock_throws: "\<exists>e'. fst (catchBlock e c) = Inl e'"
  by (simp add: catchBlock_def Let_def)

lemma processAIResponse_cases:
  assumes "tryBlock draws t c = (r, c2)"
  shows "processAIResponse draws t c =
           (case r of Inl e \<Rightarrow> catchBlock e c2
            | Inr segments \<Rightarrow> (Inr (), emit (AiResponseProcessed t segments) (setState IDLE c2)))"
  using assms by (simp add: processAIResponse_def split: sum.splits)

text \<open>
  The recovery on a controller that has a listener for the error event attached: a call
  that ends with a throw leaves the state \<open>ERROR\<close> and one more pending timer, of
  5000 milliseconds; a call that returns leaves the timers as they were. The callback
  of the timer sets the state to \<open>IDLE\<close> when the state is \<open>ERROR\<close> and changes
  nothing otherwise.
\<close>

lemma error_recovery_timer:
  "(0 < errorListeners c \<longrightarrow>
      (\<forall>e c'. processAIResponse draws t c = (Inl e, c') \<longrightarrow>
         state c' = ERROR \<and> timers c' = timers c @ [5000]))
   \<and> (\<forall>u c'. processAIResponse draws t c = (Inr u, c') \<longrightarrow>
       state c' = IDLE \<and> timers c' = timers c)
   \<and> (state c = ERROR \<longrightarrow> recoveryCallback c = setState IDLE c \<and> state (recoveryCallback c) = IDLE)
   \<and> (state c \<noteq> ERROR \<longrightarrow> recoveryCallback c = c)
   \<and> (\<forall>d ds. timers c = d # ds \<longrightarrow> timerFires c = recoveryCallback (c\<lparr>timers := ds\<rparr>))"
proof -
  obtain r c2 where tb: "tryBlock draws t c = (r, c2)" by (cases "tryBlock draws t c")
  from tryBlock_frame [OF tb] have tm: "timers c2 = timers c"
    and ls: "errorListeners c2 = errorListeners c" by simp_all
  note run = processAIResponse_cases [OF tb]
  have a: "state c' = ERROR \<and> timers c' = timers c @ [5000]"
    if l: "0 < errorListeners c" and h: "processAIResponse draws t c = (Inl e, c')" for e c'
  proof (cases r)
    case (Inl e0)
    with run h have "catchBlock e0 c2 = (Inl e, c')" by simp
    then have "c' = snd (catchBlock e0 c2)" by simp
    then show ?thesis using catchBlock_heard [of c2 e0] tm ls l by simp
  next
    case (Inr segments)
    with run h show ?thesis by simp
  qed
  have b: "state c' = IDLE \<and> timers c' = timers c"
    if h: "processAIResponse draws t c = (Inr u, c')" for u c'
  proof (cases r)
    case (Inl e0)
    with run h have "catchBlock e0 c2 = (Inr u, c')" by simp
    then have "fst (catchBlock e0 c2) = Inr u" by (simp only: fst_conv)
    then show ?thesis using catchBlock_throws [of e0 c2] by auto
  next
    case (Inr segments)
    with run h have "c' = emit (AiResponseProcessed t segments) (setState IDLE c2)" by simp
    then show ?thesis using tm by (simp add: emit_def setState_def Let_def)
  qed
  have c: "state c = ERROR \<longrightarrow> recoveryCallback c = setState IDLE c \<and> state (recoveryCallback c) = IDLE"
    by (simp add: recoveryCallback_def setState_def emit_def Let_def)
  have d: "state c \<noteq> ERROR \<longrightarrow> recoveryCallback c = c"
    by (simp add: recoveryCallback_def)
  have e: "\<forall>d ds. timers c = d # ds \<longrightarrow> timerFires c = recoveryCallback (c\<lparr>timers := ds\<rparr>)"
    by (simp add: timerFires_def)
  from a b c d e show ?thesis by blast
qed

subsection \<open>The concrete calls\<close>

lemma hello_segments: "segment asciiLower defaultSegmentationConfig helloText = [helloSegment]"
  by (simp add: segment_eval helloText_def helloSegment_def analyzeEmotion_def hasEmphasis_def
      calculatePause_def markCount_def asciiLower_def ascii_def)

lemma exclaim_segments: "segment asciiLower defaultSegmentationConfig exclaimText = [exclaimSegment]"
  by (simp add: segment_eval exclaimText_def exclaimSegment_def analyzeEmotion_def hasEmphasis_def
      calculatePause_def markCount_def asciiLower_def ascii_def)

lemma exclaim_stream:
  "expression exclaimStream = Some (ExpressionName (ascii ''surprised''))"
  "streamId exclaimStream = Some (ascii ''stream_1700_k3x'')"
  by (simp_all add: exclaimStream_def generate_def generateStreamId_def exampleDraws_def
      decimal.simps ascii_def mapEmotionToExpression_def getProperty_def emotionOrNeutral_def
      truthyString_def exclaimSegment_def defaultGenerationConfig_def)

lemma later_stream:
  "expression laterStream = Some (ExpressionName (ascii ''neutral''))"
  by (simp_all add: laterStream_def generate_def ascii_def mapEmotionToExpression_def
      getProperty_def emotionOrNeutral_def truthyString_def helloSegment_def
      defaultGenerationConfig_def)

lemma picky_config:
  "enableSeamlessTransition (config pickyController)"
  "transitionModule (modules pickyController) = Some pickyTransition"
  "segmentationModule (modules pickyController) = Some (\<lambda>t. Inr (segment asciiLower defaultSegmentationConfig t))"
  "generationModule (modules pickyController) = Some (\<lambda>en seg h. Inr (generate asciiLower defaultGenerationConfig en seg h))"
  "enableSmartSegmentation (config pickyController)"
  "history pickyController = newHistory 50"
  "state pickyController = IDLE"
  "timers pickyController = []"
  "errorListeners pickyController = 0"
  by (simp_all add: pickyController_def createHighPerformanceController_def createController_def
      registerModules_def registerTransitionModule_def newController_def emit_def Let_def)

lemma adapted_config:
  "config adaptedController = config pickyController"
  "modules adaptedController = modules pickyController"
  "history adaptedController = newHistory 50"
  "state adaptedController = IDLE"
  "timers adaptedController = []"
  "emitted adaptedController = emitted pickyController"
  "errorListeners adaptedController = Suc 0"
  by (simp_all add: adaptedController_def newCameraModeAdapter_def setupEventListeners_def
      onError_def picky_config)

lemma picky_steps:
  assumes "config c = config pickyController" and "modules c = modules pickyController"
    and "history c = newHistory 50"
  shows "segmentText exclaimText (emit (AiResponseReceived exclaimText) (setState PROCESSING c)) =
           Inr ([] @ exclaimSegment # [])"
    and "processSegments exampleDraws 0 [] (emit (AiResponseReceived exclaimText) (setState PROCESSING c)) =
           (Inr (), emit (AiResponseReceived exclaimText) (setState PROCESSING c))"
    and "generateRenderStream (exampleDraws (length ([] :: SentenceSegment list))) exclaimSegment
           (emit (AiResponseReceived exclaimText) (setState PROCESSING c)) = Inr exclaimStream"
    and "pickyTransition exclaimStream
           (addToHistory exclaimStream
             (history (emit (AiResponseReceived exclaimText) (setState PROCESSING c)))) =
           Inl (Thrown ''transition failed'')"
  using assms
  by (simp_all add: segmentText_def generateRenderStream_def emit_def setState_def Let_def
      picky_config exclaim_segments exclaimStream_def pickyTransition_def exclaim_stream [unfolded exclaimStream_def])

lemma picky_received:
  "history pickyReceived = newHistory 50"
  "state pickyReceived = PROCESSING"
  "timers pickyReceived = []"
  "emitted pickyReceived = emitted adaptedController @ [StateChanged IDLE PROCESSING, AiResponseReceived exclaimText]"
  by (simp_all add: pickyReceived_def emit_def setState_def Let_def adapted_config)

lemma error_controller:
  "processAIResponse exampleDraws exclaimText adaptedController = (Inl (Thrown ''transition failed''), errorController)"
  "state errorController = ERROR"
  "history errorController = addToHistory exclaimStream (newHistory 50)"
  "config errorController = config pickyController"
  "modules errorController = modules pickyController"
  "timers errorController = [5000]"
  "emitted errorController = emitted adaptedController @
     [StateChanged IDLE PROCESSING, AiResponseReceived exclaimText,
      StateChanged PROCESSING TRANSITIONING, StateChanged TRANSITIONING ERROR,
      ErrorEvent (Thrown ''transition failed'') (ascii ''processAIResponse'')]"
  "errorListeners errorController = Suc 0"
proof -
  have ls: "0 < errorListeners adaptedController" by (simp add: adapted_config)
  have en: "enableSeamlessTransition (config adaptedController)"
    and tm: "transitionModule (modules adaptedController) = Some pickyTransition"
    by (simp_all add: adapted_config picky_config)
  note run = failing_transition_run [OF ls en tm picky_steps [OF adapted_config(1,2,3)]]
  have c1: "emit (AiResponseReceived exclaimText) (setState PROCESSING adaptedController) =
    adaptedController\<lparr>state := PROCESSING, emitted := emitted adaptedController @
       [StateChanged IDLE PROCESSING, AiResponseReceived exclaimText]\<rparr>"
    by (simp add: emit_def setState_def Let_def adapted_config)
  show "processAIResponse exampleDraws exclaimText adaptedController = (Inl (Thrown ''transition failed''), errorController)"
    by (simp add: errorController_def run)
  show "state errorController = ERROR" by (simp add: errorController_def run)
  show "history errorController = addToHistory exclaimStream (newHistory 50)"
    by (simp add: errorController_def run c1 adapted_config)
  show "config errorController = config pickyController"
    by (simp add: errorController_def run c1 adapted_config)
  show "modules errorController = modules pickyController"
    by (simp add: errorController_def run c1 adapted_config)
  show "timers errorController = [5000]"
    by (simp add: errorController_def run c1 adapted_config)
  show "emitted errorController = emitted adaptedController @
     [StateChanged IDLE PROCESSING, AiResponseReceived exclaimText,
      StateChanged PROCESSING TRANSITIONING, StateChanged TRANSITIONING ERROR,
      ErrorEvent (Thrown ''transition failed'') (ascii ''processAIResponse'')]"
    by (simp add: errorController_def run c1)
  show "errorListeners errorController = Suc 0"
    by (simp add: errorController_def run c1 adapted_config)
qed

lemma stranded_controller:
  "processAIResponse exampleDraws exclaimText pickyController =
     (Inl (UnhandledError (Thrown ''transition failed'') (ascii ''processAIResponse'')),
      strandedController)"
  "state strandedController = ERROR"
  "timers strandedController = []"
  "emitted strandedController = emitted pickyController @
     [StateChanged IDLE PROCESSING, AiResponseReceived exclaimText,
      StateChanged PROCESSING TRANSITIONING, StateChanged TRANSITIONING ERROR]"
proof -
  note run = failing_transition_unheard [OF picky_config(9) picky_config(1) picky_config(2)
      picky_steps [OF refl refl picky_config(6)]]
  have c1: "emit (AiResponseReceived exclaimText) (setState PROCESSING pickyController) =
    pickyController\<lparr>state := PROCESSING, emitted := emitted pickyController @
       [StateChanged IDLE PROCESSING, AiResponseReceived exclaimText]\<rparr>"
    by (simp add: emit_def setState_def Let_def picky_config)
  show "processAIResponse exampleDraws exclaimText pickyController =
     (Inl (UnhandledError (Thrown ''transition failed'') (ascii ''processAIResponse'')),
      strandedController)"
    by (simp add: strandedController_def run)
  show "state strandedController = ERROR" by (simp add: strandedController_def run)
  show "timers strandedController = []"
    by (simp add: strandedController_def run c1 picky_config)
  show "emitted strandedController = emitted pickyController @
     [StateChanged IDLE PROCESSING, AiResponseReceived exclaimText,
      StateChanged PROCESSING TRANSITIONING, StateChanged TRANSITIONING ERROR]"
    by (simp add: strandedController_def run c1)
qed

theorem transition_failure_witness:
  "0 < errorListeners adaptedController
   \<and> enableSeamlessTransition (config adaptedController)
   \<and> transitionModule (modules adaptedController) = Some pickyTransition
   \<and> segmentText exclaimText pickyReceived = Inr ([] @ exclaimSegment # [])
   \<and> processSegments exampleDraws 0 [] pickyReceived = (Inr (), pickyReceived)
   \<and> generateRenderStream (exampleDraws (length ([] :: SentenceSegment list))) exclaimSegment pickyReceived = Inr exclaimStream
   \<and> pickyTransition exclaimStream (addToHistory exclaimStream (history pickyReceived)) = Inl (Thrown ''transition failed'')
   \<and> fst (processAIResponse exampleDraws exclaimText adaptedController) = Inl (Thrown ''transition failed'')
   \<and> state (snd (processAIResponse exampleDraws exclaimText adaptedController)) = ERROR
   \<and> newEvents adaptedController (snd (processAIResponse exampleDraws exclaimText adaptedController)) =
        [StateChanged IDLE PROCESSING, AiResponseReceived exclaimText,
         StateChanged PROCESSING TRANSITIONING, StateChanged TRANSITIONING ERROR,
         ErrorEvent (Thrown ''transition failed'') (ascii ''processAIResponse'')]"
proof -
  have ls: "0 < errorListeners adaptedController" by (simp add: adapted_config)
  have en: "enableSeamlessTransition (config adaptedController)"
    and tm: "transitionModule (modules adaptedController) = Some pickyTransition"
    by (simp_all add: adapted_config picky_config)
  note steps = picky_steps [OF adapted_config(1,2,3), folded pickyReceived_def]
  from transition_failure [OF ls en tm picky_steps [OF adapted_config(1,2,3)]]
  have r: "fst (processAIResponse exampleDraws exclaimText adaptedController) = Inl (Thrown ''transition failed'')"
    "state (snd (processAIResponse exampleDraws exclaimText adaptedController)) = ERROR"
    "emitted (snd (processAIResponse exampleDraws exclaimText adaptedController)) =
       emitted pickyReceived @ [StateChanged (state pickyReceived) TRANSITIONING, StateChanged TRANSITIONING ERROR,
                       ErrorEvent (Thrown ''transition failed'') (ascii ''processAIResponse'')]"
    by (simp_all add: pickyReceived_def)
  have "newEvents adaptedController (snd (processAIResponse exampleDraws exclaimText adaptedController)) =
        [StateChanged IDLE PROCESSING, AiResponseReceived exclaimText,
         StateChanged PROCESSING TRANSITIONING, StateChanged TRANSITIONING ERROR,
         ErrorEvent (Thrown ''transition failed'') (ascii ''processAIResponse'')]"
    by (simp add: newEvents_def r(3) picky_received)
  then show ?thesis
    using r(1,2) steps ls en tm by simp
qed

text \<open>
  Claim C2 says that the context of the error event carries the id of the instruction
  whose transition failed. In the failed call on \<open>exclaimText\<close> the only error event
  has the context \<open>processAIResponse\<close>, and the id of the instruction, the one entry
  of the history, does not occur in it.
\<close>

theorem error_context_counterexample:
  "filter isErrorEvent (newEvents adaptedController errorController) =
     [ErrorEvent (Thrown ''transition failed'') (ascii ''processAIResponse'')]
   \<and> map streamId (streams (history errorController)) = [Some (ascii ''stream_1700_k3x'')]
   \<and> \<not> includesJs (ascii ''processAIResponse'') (ascii ''stream_1700_k3x'')"
proof -
  have "newEvents adaptedController errorController =
     [StateChanged IDLE PROCESSING, AiResponseReceived exclaimText,
      StateChanged PROCESSING TRANSITIONING, StateChanged TRANSITIONING ERROR,
      ErrorEvent (Thrown ''transition failed'') (ascii ''processAIResponse'')]"
    by (simp add: newEvents_def error_controller)
  moreover have "map streamId (streams (history errorController)) = [Some (ascii ''stream_1700_k3x'')]"
    by (simp add: error_controller addToHistory_def newHistory_def Let_def exclaim_stream)
  moreover have "\<not> includesJs (ascii ''processAIResponse'') (ascii ''stream_1700_k3x'')"
    by (simp add: ascii_def)
  ultimately show ?thesis by simp
qed

text \<open>
  Claim C9 says that a recovery timer of five seconds is scheduled whenever a failure
  moves the controller to \<open>ERROR\<close>, and the catch block is written to do so. On the
  controller as the factory returns it, with no listener for the error event, the
  failing transition leaves the state \<open>ERROR\<close> and no timer pending: \<open>emit\<close> ends the
  call with the emitter's own error before \<open>setTimeout\<close> is reached, and with no
  timer pending nothing resets the state.
\<close>

theorem unheard_failure_schedules_no_timer:
  "errorListeners pickyController = 0
   \<and> fst (processAIResponse exampleDraws exclaimText pickyController) =
       Inl (UnhandledError (Thrown ''transition failed'') (ascii ''processAIResponse''))
   \<and> state (snd (processAIResponse exampleDraws exclaimText pickyController)) = ERROR
   \<and> timers (snd (processAIResponse exampleDraws exclaimText pickyController)) = []
   \<and> state (timerFires (snd (processAIResponse exampleDraws exclaimText pickyController))) = ERROR"
  by (simp add: stranded_controller picky_config timerFires_def)

lemma seamless_single_run:
  assumes en: "enableSeamlessTransition (config c)"
    and tm: "transitionModule (modules c) = Some tm"
    and seg: "segmentText t (emit (AiResponseReceived t) (setState PROCESSING c)) = Inr [seg]"
    and gen: "generateRenderStream (draws 0) seg (emit (AiResponseReceived t) (setState PROCESSING c)) = Inr rs"
    and ok: "tm rs (addToHistory rs (history c)) = Inr ()"
  shows "processAIResponse draws t c =
           (Inr (), c\<lparr>history := addToHistory rs (history c), state := IDLE,
                      emitted := emitted c @
                        [StateChanged (state c) PROCESSING, AiResponseReceived t,
                         StateChanged PROCESSING TRANSITIONING, StateChanged TRANSITIONING RENDERING,
                         RenderStreamReady rs, StateChanged RENDERING IDLE,
                         AiResponseProcessed t [seg]]\<rparr>)"
proof -
  define c1 where "c1 = emit (AiResponseReceived t) (setState PROCESSING c)"
  have f1: "enableSeamlessTransition (config c1)" "transitionModule (modules c1) = Some tm"
    "history c1 = history c" "state c1 = PROCESSING"
    "emitted c1 = emitted c @ [StateChanged (state c) PROCESSING, AiResponseReceived t]"
    using en tm by (simp_all add: c1_def emit_def setState_def Let_def)
  have c1: "c1 = c\<lparr>state := PROCESSING, emitted := emitted c @ [StateChanged (state c) PROCESSING, AiResponseReceived t]\<rparr>"
    by (simp add: c1_def emit_def setState_def Let_def)
  have "triggerSeamlessTransition rs (c1\<lparr>history := addToHistory rs (history c1)\<rparr>) =
          (Inr (), c1\<lparr>history := addToHistory rs (history c1), state := RENDERING,
                      emitted := emitted c1 @ [StateChanged PROCESSING TRANSITIONING,
                         StateChanged TRANSITIONING RENDERING, RenderStreamReady rs]\<rparr>)"
    using f1 ok by (simp add: triggerSeamlessTransition_def setState_def emit_def Let_def)
  then have "tryBlock draws t c =
          (Inr [seg], c1\<lparr>history := addToHistory rs (history c1), state := RENDERING,
                      emitted := emitted c1 @ [StateChanged PROCESSING TRANSITIONING,
                         StateChanged TRANSITIONING RENDERING, RenderStreamReady rs]\<rparr>)"
    using seg gen by (simp add: tryBlock_def c1_def [symmetric] Let_def)
  then show ?thesis
    by (simp add: processAIResponse_def setState_def emit_def Let_def c1)
qed


lemma later_run:
  "processAIResponse laterDraws helloText errorController =
     (Inr (), errorController\<lparr>history := addToHistory laterStream (history errorController), state := IDLE,
                      emitted := emitted errorController @
                        [StateChanged ERROR PROCESSING, AiResponseReceived helloText,
                         StateChanged PROCESSING TRANSITIONING, StateChanged TRANSITIONING RENDERING,
                         RenderStreamReady laterStream, StateChanged RENDERING IDLE,
                         AiResponseProcessed helloText [helloSegment]]\<rparr>)"
proof -
  have en: "enableSeamlessTransition (config errorController)"
    and tm: "transitionModule (modules errorController) = Some pickyTransition"
    by (simp_all add: error_controller picky_config)
  have seg: "segmentText helloText (emit (AiResponseReceived helloText) (setState PROCESSING errorController)) = Inr [helloSegment]"
    by (simp add: segmentText_def emit_def setState_def Let_def error_controller picky_config hello_segments)
  have gen: "generateRenderStream (laterDraws 0) helloSegment (emit (AiResponseReceived helloText) (setState PROCESSING errorController)) = Inr laterStream"
    by (simp add: generateRenderStream_def emit_def setState_def Let_def error_controller(4,5) picky_config laterStream_def)
  have ok: "pickyTransition laterStream (addToHistory laterStream (history errorController)) = Inr ()"
    by (simp add: pickyTransition_def later_stream ascii_def)
  from seamless_single_run [where draws = laterDraws, OF en tm seg gen ok] show ?thesis
    by (simp add: error_controller(2))
qed

text \<open>
  Claim C1 says that \<open>processAIResponse\<close> is a no-op in every state other than
  \<open>IDLE\<close>. After the failed call the state is \<open>ERROR\<close>; the next call, on
  \<open>helloText\<close>, returns normally, leaves the state \<open>IDLE\<close>, appends its instruction
  to the history and announces it with \<open>renderStreamReady\<close>.
\<close>

theorem submit_in_error_state_runs:
  "state errorController \<noteq> IDLE
   \<and> fst (processAIResponse laterDraws helloText errorController) = Inr ()
   \<and> state (snd (processAIResponse laterDraws helloText errorController)) = IDLE
   \<and> streams (history (snd (processAIResponse laterDraws helloText errorController))) =
       streams (history errorController) @ [laterStream]
   \<and> readyStreams (newEvents errorController
        (snd (processAIResponse laterDraws helloText errorController))) = [laterStream]"
proof -
  have "streams (addToHistory laterStream (history errorController)) = streams (history errorController) @ [laterStream]"
    by (simp add: error_controller(3) addToHistory_def newHistory_def Let_def)
  then show ?thesis
    by (simp add: later_run error_controller(2) newEvents_def)
qed

lemma processAIResponse_starts:
  "\<exists>evs. emitted (snd (processAIResponse draws t c)) =
           emitted c @ StateChanged (state c) PROCESSING # AiResponseReceived t # evs"
proof -
  obtain r c2 where tb: "tryBlock draws t c = (r, c2)" by (cases "tryBlock draws t c")
  from tryBlock_emitted [OF tb] obtain evs where
    e: "emitted c2 = emitted c @ StateChanged (state c) PROCESSING # AiResponseReceived t # evs"
    by auto
  show ?thesis
  proof (cases r)
    case (Inl e0)
    show ?thesis
    proof (cases "errorListeners c2 = 0")
      case True
      with Inl have "emitted (snd (processAIResponse draws t c)) =
        emitted c @ StateChanged (state c) PROCESSING # AiResponseReceived t #
          (evs @ [StateChanged (state c2) ERROR])"
        by (simp add: processAIResponse_cases [OF tb] catchBlock_def setState_def emit_def Let_def e)
      then show ?thesis by blast
    next
      case False
      with Inl have "emitted (snd (processAIResponse draws t c)) =
        emitted c @ StateChanged (state c) PROCESSING # AiResponseReceived t #
          (evs @ [StateChanged (state c2) ERROR, ErrorEvent e0 (ascii ''processAIResponse'')])"
        by (simp add: processAIResponse_cases [OF tb] catchBlock_def setState_def emit_def Let_def e)
      then show ?thesis by blast
    qed
  next
    case (Inr segments)
    then have "emitted (snd (processAIResponse draws t c)) =
      emitted c @ StateChanged (state c) PROCESSING # AiResponseReceived t #
        (evs @ [StateChanged (state c2) IDLE, AiResponseProcessed t segments])"
      by (simp add: processAIResponse_cases [OF tb] setState_def emit_def Let_def e)
    then show ?thesis by blast
  qed
qed

text \<open>
  Claim C1, amended. The call that is rejected is \<open>handleAIResponse\<close> of the adapter,
  exactly while the adapter's own flag \<open>isProcessing\<close> is set. With the flag set it
  returns at once, the adapter and the controller are as before (no segmentation, no
  instruction, nothing appended, the state unchanged, nothing kept for later). With the
  flag clear it runs \<open>processAIResponse\<close> on the controller, whatever the controller's
  state: the outcome and the controller are those of \<open>processAIResponse\<close>, the
  adapter has recorded the ids of the announced render streams and its flag is clear
  again. \<open>processAIResponse\<close> itself does not look at the state: in every state its
  first events are the change to \<open>PROCESSING\<close> and \<open>aiResponseReceived\<close>.
\<close>

theorem adapter_rejects_while_processing:
  "(isProcessing a \<longrightarrow> handleAIResponse draws t (a, c) = (Inr (), a, c))
   \<and> (\<not> isProcessing a \<longrightarrow>
        fst (handleAIResponse draws t (a, c)) = fst (processAIResponse draws t c)
        \<and> snd (snd (handleAIResponse draws t (a, c))) = snd (processAIResponse draws t c)
        \<and> \<not> isProcessing (fst (snd (handleAIResponse draws t (a, c))))
        \<and> processedStreamIds (fst (snd (handleAIResponse draws t (a, c)))) =
            foldl noteRenderStream
              (if length (processedStreamIds a) > 100 then [] else processedStreamIds a)
              (newEvents c (snd (processAIResponse draws t c))))
   \<and> (\<exists>evs. emitted (snd (processAIResponse draws t c)) =
              emitted c @ StateChanged (state c) PROCESSING # AiResponseReceived t # evs)"
  using processAIResponse_starts [of draws t c]
  by (simp add: handleAIResponse_def Let_def newEvents_def)

theorem adapter_rejects_while_processing_witness:
  "isProcessing busyAdapter
   \<and> handleAIResponse laterDraws helloText (busyAdapter, errorController) =
       (Inr (), busyAdapter, errorController)
   \<and> \<not> isProcessing idleAdapter
   \<and> state errorController = ERROR
   \<and> fst (handleAIResponse laterDraws helloText (idleAdapter, errorController)) = Inr ()
   \<and> state (snd (snd (handleAIResponse laterDraws helloText (idleAdapter, errorController)))) = IDLE
   \<and> streams (history (snd (snd (handleAIResponse laterDraws helloText (idleAdapter, errorController))))) =
       streams (history errorController) @ [laterStream]
   \<and> processedStreamIds (fst (snd (handleAIResponse laterDraws helloText (idleAdapter, errorController)))) =
       [streamId laterStream]"
proof -
  have b: "isProcessing busyAdapter" by (simp add: busyAdapter_def)
  have i: "\<not> isProcessing idleAdapter" "processedStreamIds idleAdapter = []"
    by (simp_all add: idleAdapter_def newCameraModeAdapter_def)
  from adapter_rejects_while_processing [of busyAdapter laterDraws helloText errorController] b
  have r1: "handleAIResponse laterDraws helloText (busyAdapter, errorController) =
       (Inr (), busyAdapter, errorController)" by blast
  from adapter_rejects_while_processing [of idleAdapter laterDraws helloText errorController] i(1)
  have r2: "fst (handleAIResponse laterDraws helloText (idleAdapter, errorController)) =
          fst (processAIResponse laterDraws helloText errorController)"
    "snd (snd (handleAIResponse laterDraws helloText (idleAdapter, errorController))) =
          snd (processAIResponse laterDraws helloText errorController)"
    "processedStreamIds (fst (snd (handleAIResponse laterDraws helloText (idleAdapter, errorController)))) =
            foldl noteRenderStream
              (if length (processedStreamIds idleAdapter) > 100 then [] else processedStreamIds idleAdapter)
              (newEvents errorController (snd (processAIResponse laterDraws helloText errorController)))"
    by blast+
  have h: "streams (addToHistory laterStream (history errorController)) =
           streams (history errorController) @ [laterStream]"
    by (simp add: error_controller(3) addToHistory_def newHistory_def Let_def)
  have n: "newEvents errorController (snd (processAIResponse laterDraws helloText errorController)) =
      [StateChanged ERROR PROCESSING, AiResponseReceived helloText,
       StateChanged PROCESSING TRANSITIONING, StateChanged TRANSITIONING RENDERING,
       RenderStreamReady laterStream, StateChanged RENDERING IDLE,
       AiResponseProcessed helloText [helloSegment]]"
    by (simp add: later_run newEvents_def)
  show ?thesis
    using b i(1) r1 h
    by (simp add: r2 n i(2) later_run error_controller(2) noteRenderStream_def)
qed

lemma error_recovery_timer_witness:
  "0 < errorListeners adaptedController
   \<and> processAIResponse exampleDraws exclaimText adaptedController =
       (Inl (Thrown ''transition failed''), errorController)
   \<and> state errorController = ERROR
   \<and> timers errorController = timers adaptedController @ [5000]
   \<and> state (recoveryCallback errorController) = IDLE
   \<and> state adaptedController \<noteq> ERROR
   \<and> recoveryCallback adaptedController = adaptedController
   \<and> timers errorController = [5000]
   \<and> state (timerFires errorController) = IDLE
   \<and> fst (processAIResponse laterDraws helloText errorController) = Inr ()
   \<and> timers (snd (processAIResponse laterDraws helloText errorController)) = timers errorController"
proof -
  note fail = error_controller(1)
  have ls: "0 < errorListeners adaptedController" by (simp add: adapted_config)
  have t5: "timers errorController = [5000]" by (rule error_controller(6))
  have ne: "state adaptedController \<noteq> ERROR" by (simp add: adapted_config)
  from error_recovery_timer [of adaptedController exampleDraws exclaimText] fail ls
  have a: "state errorController = ERROR" "timers errorController = timers adaptedController @ [5000]"
    by blast+
  from error_recovery_timer [of errorController laterDraws helloText] a(1) t5
  have b: "state (recoveryCallback errorController) = IDLE"
    "timerFires errorController = recoveryCallback (errorController\<lparr>timers := []\<rparr>)"
    by blast+
  have "state (errorController\<lparr>timers := []\<rparr>) = ERROR" using a(1) by simp
  with error_recovery_timer [of "errorController\<lparr>timers := []\<rparr>" laterDraws helloText]
  have "state (recoveryCallback (errorController\<lparr>timers := []\<rparr>)) = IDLE" by blast
  with b(2) have c: "state (timerFires errorController) = IDLE" by simp
  from error_recovery_timer [of adaptedController exampleDraws exclaimText] ne
  have d: "recoveryCallback adaptedController = adaptedController" by blast
  obtain c' where l: "processAIResponse laterDraws helloText errorController = (Inr (), c')"
    using later_run by simp
  with error_recovery_timer [of errorController laterDraws helloText]
  have "timers c' = timers errorController" by blast
  with l have e: "fst (processAIResponse laterDraws helloText errorController) = Inr ()"
    "timers (snd (processAIResponse laterDraws helloText errorController)) = timers errorController"
    by simp_all
  from ls fail a b(1) ne d t5 c e show ?thesis by simp
qed







end
